(* ===== verification/Prelude.thy ===== *)
theory Prelude
  imports Main "HOL-Library.Word"
begin

text \<open>
  Shared vocabulary of the development: the types that stand for Go's machine types and
  error values, the outcome of a call that may panic, the collections of rewrite rules the
  component theories add to, and generic lemmas on lists and words.

  A Go string is a sequence of bytes, so it is a HOL \<open>string\<close> whose characters are bytes and
  whose \<open>length\<close> is Go's \<open>len\<close>. Raw bytes read from or written to a socket are \<open>8 word\<close>.
  Signed 64-bit values that only travel and are compared are \<open>int\<close> with the range written out
  (\<open>in_int64\<close>); where the source computes on them, the computation is on \<open>64 word\<close>.
\<close>

section \<open>Machine types\<close>

type_synonym byte = "8 word"
type_synonym u16 = "16 word"
type_synonym u32 = "32 word"
type_synonym u64 = "64 word"
type_synonym int64 = int

definition int64_max :: int where "int64_max = 9223372036854775807"
definition int64_min :: int where "int64_min = - 9223372036854775808"

definition in_int64 :: "int \<Rightarrow> bool" where
  "in_int64 i \<longleftrightarrow> int64_min \<le> i \<and> i \<le> int64_max"

lemma in_int64_sint [simp]: "in_int64 (sint (w :: u64))"
  using sint_ge [of w] sint_lt [of w] by (simp add: in_int64_def int64_min_def int64_max_def)

lemma sint_of_int_int64:
  "in_int64 i \<Longrightarrow> sint (word_of_int i :: u64) = i"
  by (simp add: in_int64_def int64_min_def int64_max_def signed_take_bit_int_eq_self
      sint_sbintrunc')

text \<open>Signed 64-bit arithmetic on \<open>int\<close>: the result cut to 64 bits, as Go's \<open>int\<close> wraps.\<close>

definition wrap64 :: "int \<Rightarrow> int64" where
  "wrap64 i = sint (word_of_int i :: u64)"

lemma wrap64_id: "in_int64 i \<Longrightarrow> wrap64 i = i"
  by (simp add: wrap64_def sint_of_int_int64)

lemma wrap64_range [simp]: "in_int64 (wrap64 i)"
  by (simp add: wrap64_def)

section \<open>Errors and panics\<close>

text \<open>
  A Go \<open>error\<close> is a message, possibly wrapping another error (\<open>fmt.Errorf\<close> with \<open>%w\<close>). A
  function returning \<open>(T, error)\<close> is a function into \<open>go_error + 'a\<close>; one that may return
  \<open>(nil, nil)\<close> is a function into \<open>go_error + 'a option\<close>.
\<close>

datatype go_error = Errorf string | Wrapf string go_error

fun error_text :: "go_error \<Rightarrow> string" where
  "error_text (Errorf m) = m"
| "error_text (Wrapf m e) = m @ '': '' @ error_text e"

text \<open>A call that may panic at run time (slice bounds, nil dereference).\<close>

datatype 'a outcome = Return 'a | Panic string

fun returns :: "'a outcome \<Rightarrow> bool" where
  "returns (Return _) = True"
| "returns (Panic _) = False"

section \<open>Collections of rules\<close>

named_theorems go_eval \<open>definitions that a concrete evaluation unfolds\<close>
named_theorems sql_defs \<open>definitions of the SQL statements\<close>
named_theorems table_simps \<open>how the statements act on the rows of a table\<close>

section \<open>Lists\<close>

lemma take_append_exact [simp]: "length xs = n \<Longrightarrow> take n (xs @ ys) = xs"
  by simp

lemma drop_append_exact [simp]: "length xs = n \<Longrightarrow> drop n (xs @ ys) = ys"
  by simp

lemma list_of_length_4:
  "length xs = 4 \<Longrightarrow> \<exists>a b c d. xs = [a, b, c, d]"
  by (auto simp: numeral_eq_Suc length_Suc_conv)

lemma list_of_length_2: "length xs = 2 \<Longrightarrow> \<exists>a b. xs = [a, b]"
  by (auto simp: numeral_eq_Suc length_Suc_conv)

lemma find_append:
  "find P (xs @ ys) = (case find P xs of None \<Rightarrow> find P ys | Some x \<Rightarrow> Some x)"
  by (induction xs) auto

lemma list_all_drop: "list_all P xs \<Longrightarrow> list_all P (drop n xs)"
  by (auto simp: list_all_iff dest: in_set_dropD)

lemma list_all_take: "list_all P xs \<Longrightarrow> list_all P (take n xs)"
  by (auto simp: list_all_iff dest: in_set_takeD)

end
