(* ===== verification/Go_Strings.thy ===== *)
theory Go_Strings
  imports Prelude
begin

text \<open>
  The part of Go's standard library the program uses on strings: ranging over the runes of
  a string (UTF-8 decoding with one replacement rune per invalid byte), \<open>unicode.IsDigit\<close>,
  \<open>strings.TrimSpace\<close>, \<open>ReplaceAll\<close> and \<open>HasPrefix\<close>, and \<open>strconv.Atoi\<close>. The lemmas show
  what these do on ASCII text, which is what the other components rely on.
\<close>

section \<open>Bytes and runes\<close>

definition bytes_of :: "string \<Rightarrow> nat list" where
  "bytes_of s = map of_char s"

definition rune_error :: nat where "rune_error = 65533"

definition cont_byte :: "nat \<Rightarrow> bool" where
  "cont_byte b \<longleftrightarrow> 128 \<le> b \<and> b \<le> 191"

text \<open>
  \<open>utf8.DecodeRune\<close>: the first rune and its width. An invalid or truncated sequence is the
  replacement rune of width 1; the second byte's range depends on the first (no overlong
  forms, no surrogates, nothing above U+10FFFF).
\<close>

fun decode_rune :: "nat list \<Rightarrow> nat \<times> nat" where
  "decode_rune [] = (rune_error, 0)"
| "decode_rune (b0 # bs) =
    (if b0 < 128 then (b0, 1)
     else if 194 \<le> b0 \<and> b0 \<le> 223 then
       (case bs of
          b1 # _ \<Rightarrow> if cont_byte b1 then ((b0 - 192) * 64 + (b1 - 128), 2) else (rune_error, 1)
        | _ \<Rightarrow> (rune_error, 1))
     else if 224 \<le> b0 \<and> b0 \<le> 239 then
       (case bs of
          b1 # b2 # _ \<Rightarrow>
            if (if b0 = 224 then 160 else 128) \<le> b1 \<and> b1 \<le> (if b0 = 237 then 159 else 191)
               \<and> cont_byte b2
            then ((b0 - 224) * 4096 + (b1 - 128) * 64 + (b2 - 128), 3) else (rune_error, 1)
        | _ \<Rightarrow> (rune_error, 1))
     else if 240 \<le> b0 \<and> b0 \<le> 244 then
       (case bs of
          b1 # b2 # b3 # _ \<Rightarrow>
            if (if b0 = 240 then 144 else 128) \<le> b1 \<and> b1 \<le> (if b0 = 244 then 143 else 191)
               \<and> cont_byte b2 \<and> cont_byte b3
            then ((b0 - 240) * 262144 + (b1 - 128) * 4096 + (b2 - 128) * 64 + (b3 - 128), 4)
            else (rune_error, 1)
        | _ \<Rightarrow> (rune_error, 1))
     else (rune_error, 1))"

declare decode_rune.simps(2) [simp del]

lemma decode_rune_width:
  "bs \<noteq> [] \<Longrightarrow> 1 \<le> snd (decode_rune bs) \<and> snd (decode_rune bs) \<le> length bs"
  by (cases bs) (auto simp: decode_rune.simps(2) split: list.splits)

lemma decode_rune_ascii [simp]: "b < 128 \<Longrightarrow> decode_rune (b # bs) = (b, 1)"
  by (simp add: decode_rune.simps(2))

text \<open>\<open>for _, r := range s\<close>: the runes of a string in order.\<close>

function runes :: "nat list \<Rightarrow> nat list" where
  "runes [] = []"
| "runes (b # bs) =
    fst (decode_rune (b # bs)) # runes (drop (snd (decode_rune (b # bs))) (b # bs))"
  by pat_completeness auto
termination
proof (relation "measure length")
  fix b :: nat and bs :: "nat list"
  have "1 \<le> snd (decode_rune (b # bs))" using decode_rune_width [of "b # bs"] by simp
  then show "(drop (snd (decode_rune (b # bs))) (b # bs), b # bs) \<in> measure length"
    by simp
qed simp

declare runes.simps(2) [simp del]

lemma runes_Cons_ascii [simp]: "b < 128 \<Longrightarrow> runes (b # bs) = b # runes bs"
  by (simp add: runes.simps(2))

lemma runes_ascii: "\<forall>b \<in> set bs. b < 128 \<Longrightarrow> runes bs = bs"
  by (induction bs) auto

text \<open>A byte outside ASCII never starts an ASCII rune: there are no overlong forms.\<close>

lemma decode_rune_2: "194 \<le> b \<Longrightarrow> b \<le> 223 \<Longrightarrow> 128 \<le> fst (decode_rune (b # bs))"
proof -
  assume b: "194 \<le> b" "b \<le> 223"
  then have "128 \<le> (b - 192) * 64 + d" for d by simp
  with b show ?thesis by (auto simp: decode_rune.simps(2) rune_error_def split: list.split)
qed

lemma decode_rune_3: "224 \<le> b \<Longrightarrow> b \<le> 239 \<Longrightarrow> 128 \<le> fst (decode_rune (b # bs))"
proof -
  assume b: "224 \<le> b" "b \<le> 239"
  have "128 \<le> (b - 224) * 4096 + (c - 128) * 64 + d" if "(if b = 224 then 160 else 128) \<le> c" for c d
    using that b by (cases "b = 224") auto
  with b show ?thesis by (auto simp: decode_rune.simps(2) rune_error_def split: list.split)
qed

lemma decode_rune_4: "240 \<le> b \<Longrightarrow> b \<le> 244 \<Longrightarrow> 128 \<le> fst (decode_rune (b # bs))"
proof -
  assume b: "240 \<le> b" "b \<le> 244"
  have "128 \<le> (b - 240) * 262144 + (c - 128) * 4096 + d + e" if "(if b = 240 then 144 else 128) \<le> c" for c d e
    using that b by (cases "b = 240") auto
  with b show ?thesis by (auto simp: decode_rune.simps(2) rune_error_def split: list.split)
qed

lemma decode_rune_large: "\<not> b < 128 \<Longrightarrow> 128 \<le> fst (decode_rune (b # bs))"
  using decode_rune_2 [of b bs] decode_rune_3 [of b bs] decode_rune_4 [of b bs]
  by (cases "194 \<le> b \<and> b \<le> 244")
    (fastforce, auto simp: decode_rune.simps(2) rune_error_def)

lemma runes_all_ascii:
  assumes "\<forall>r \<in> set (runes bs). P r \<and> r < 128"
  shows "\<forall>b \<in> set bs. P b \<and> b < 128"
  using assms
proof (induction bs)
  case (Cons b bs)
  have "fst (decode_rune (b # bs)) \<in> set (runes (b # bs))" by (simp add: runes.simps(2))
  with Cons.prems have "fst (decode_rune (b # bs)) < 128" by blast
  then have "b < 128" using decode_rune_large [of b bs] by force
  with Cons show ?case by simp
qed simp

section \<open>Digits\<close>

definition is_digit_byte :: "char \<Rightarrow> bool" where
  "is_digit_byte c \<longleftrightarrow> 48 \<le> (of_char c :: nat) \<and> (of_char c :: nat) \<le> 57"

definition digit_val :: "char \<Rightarrow> nat" where
  "digit_val c = of_char c - 48"

definition ascii_digits :: "string \<Rightarrow> bool" where
  "ascii_digits s \<longleftrightarrow> list_all is_digit_byte s"

lemma digit_val_le [simp]: "is_digit_byte c \<Longrightarrow> digit_val c \<le> 9"
  unfolding is_digit_byte_def digit_val_def by arith

lemma ascii_digits_simps [simp]:
  "ascii_digits []"
  "ascii_digits (c # s) \<longleftrightarrow> is_digit_byte c \<and> ascii_digits s"
  "ascii_digits (s @ t) \<longleftrightarrow> ascii_digits s \<and> ascii_digits t"
  by (simp_all add: ascii_digits_def)

text \<open>
  The decimal digits (category Nd) of Unicode 15.0, the version of Go 1.25's tables, as
  inclusive ranges; \<open>unicode.IsDigit\<close> looks a rune up in them.
\<close>

definition nd_ranges :: "(nat \<times> nat) list" where
  "nd_ranges =
    [(48,57),(1632,1641),(1776,1785),(1984,1993),(2406,2415),(2534,2543),(2662,2671),
     (2790,2799),(2918,2927),(3046,3055),(3174,3183),(3302,3311),(3430,3439),(3558,3567),
     (3664,3673),(3792,3801),(3872,3881),(4160,4169),(4240,4249),(6112,6121),(6160,6169),
     (6470,6479),(6608,6617),(6784,6793),(6800,6809),(6992,7001),(7088,7097),(7232,7241),
     (7248,7257),(42528,42537),(43216,43225),(43264,43273),(43472,43481),(43504,43513),
     (43600,43609),(44016,44025),(65296,65305),(66720,66729),(68912,68921),(69734,69743),
     (69872,69881),(69942,69951),(70096,70105),(70384,70393),(70736,70745),(70864,70873),
     (71248,71257),(71360,71369),(71472,71481),(71904,71913),(72016,72025),(72784,72793),
     (73040,73049),(73120,73129),(73552,73561),(92768,92777),(92864,92873),(93008,93017),
     (120782,120831),(123200,123209),(123632,123641),(124144,124153),(125264,125273),
     (130032,130041)]"

definition is_digit_rune :: "nat \<Rightarrow> bool" where
  "is_digit_rune r \<longleftrightarrow> list_ex (\<lambda>(lo, hi). lo \<le> r \<and> r \<le> hi) nd_ranges"

lemma is_digit_rune_ascii: "r < 128 \<Longrightarrow> is_digit_rune r \<longleftrightarrow> 48 \<le> r \<and> r \<le> 57"
  by (auto simp: is_digit_rune_def nd_ranges_def)

section \<open>Space\<close>

definition is_space_rune :: "nat \<Rightarrow> bool" where
  "is_space_rune r \<longleftrightarrow>
     r \<in> {9, 10, 11, 12, 13, 32, 133, 160, 5760, 8232, 8233, 8239, 8287, 12288}
     \<or> (8192 \<le> r \<and> r \<le> 8202)"

text \<open>\<open>utf8.DecodeLastRune\<close>: back up to the start of the last rune, at most four bytes.\<close>

definition rune_start :: "nat \<Rightarrow> bool" where
  "rune_start b \<longleftrightarrow> \<not> cont_byte b"

definition last_rune_at :: "nat list \<Rightarrow> nat \<Rightarrow> nat \<times> nat" where
  "last_rune_at bs k =
     (let (r, n) = decode_rune (drop (length bs - k) bs)
      in if n = k then (r, k) else (rune_error, 1))"

definition decode_last_rune :: "nat list \<Rightarrow> nat \<times> nat" where
  "decode_last_rune bs =
     (let l = length bs in
      if bs = [] then (rune_error, 0)
      else if last bs < 128 then (last bs, 1)
      else if 2 \<le> l \<and> rune_start (bs ! (l - 2)) then last_rune_at bs 2
      else if 3 \<le> l \<and> rune_start (bs ! (l - 3)) then last_rune_at bs 3
      else if 4 \<le> l \<and> rune_start (bs ! (l - 4)) then last_rune_at bs 4
      else (rune_error, 1))"

lemma decode_last_rune_width: "bs \<noteq> [] \<Longrightarrow> 1 \<le> snd (decode_last_rune bs)"
  by (auto simp: decode_last_rune_def last_rune_at_def Let_def split: prod.splits)

text \<open>\<open>strings.TrimSpace\<close>: leading space runes, then trailing ones.\<close>

function trim_left :: "string \<Rightarrow> string" where
  "trim_left s =
     (if s \<noteq> [] \<and> is_space_rune (fst (decode_rune (bytes_of s)))
      then trim_left (drop (snd (decode_rune (bytes_of s))) s) else s)"
  by pat_completeness auto
termination
proof (relation "measure length")
  fix s :: string
  assume "s \<noteq> [] \<and> is_space_rune (fst (decode_rune (bytes_of s)))"
  with decode_rune_width [of "bytes_of s"]
  show "(drop (snd (decode_rune (bytes_of s))) s, s) \<in> measure length"
    by (auto simp: bytes_of_def)
qed simp

function trim_right :: "string \<Rightarrow> string" where
  "trim_right s =
     (if s \<noteq> [] \<and> is_space_rune (fst (decode_last_rune (bytes_of s)))
      then trim_right (take (length s - snd (decode_last_rune (bytes_of s))) s) else s)"
  by pat_completeness auto
termination
proof (relation "measure length")
  fix s :: string
  assume "s \<noteq> [] \<and> is_space_rune (fst (decode_last_rune (bytes_of s)))"
  with decode_last_rune_width [of "bytes_of s"]
  show "(take (length s - snd (decode_last_rune (bytes_of s))) s, s) \<in> measure length"
    by (auto simp: bytes_of_def)
qed simp

declare trim_left.simps [simp del] trim_right.simps [simp del]

definition trim_space :: "string \<Rightarrow> string" where
  "trim_space s = trim_right (trim_left s)"

lemma trim_left_Nil [simp]: "trim_left [] = []"
  by (simp add: trim_left.simps)

lemma trim_right_Nil [simp]: "trim_right [] = []"
  by (simp add: trim_right.simps)

lemma trim_space_Nil [simp]: "trim_space [] = []"
  by (simp add: trim_space_def)

lemma length_trim_left: "length (trim_left s) \<le> length s"
proof (induction s rule: trim_left.induct)
  case (1 s)
  then show ?case by (subst trim_left.simps) (auto intro: le_trans)
qed

lemma length_trim_right: "length (trim_right s) \<le> length s"
proof (induction s rule: trim_right.induct)
  case (1 s)
  then show ?case by (subst trim_right.simps) (auto intro: le_trans)
qed

lemma length_trim_space: "length (trim_space s) \<le> length s"
  unfolding trim_space_def using length_trim_left length_trim_right le_trans by blast

text \<open>A string whose first and last bytes are ASCII and not space is trimmed to itself.\<close>

definition solid :: "char \<Rightarrow> bool" where
  "solid c \<longleftrightarrow> 32 < (of_char c :: nat) \<and> (of_char c :: nat) < 128"

lemma solid_not_space: "solid c \<Longrightarrow> \<not> is_space_rune (of_char c)"
  by (auto simp: solid_def is_space_rune_def)

lemma trim_space_solid:
  assumes "s \<noteq> []" "solid (hd s)" "solid (last s)"
  shows "trim_space s = s"
proof -
  have "fst (decode_rune (bytes_of s)) = of_char (hd s)"
    using assms by (cases s) (auto simp: bytes_of_def solid_def)
  with assms solid_not_space have l: "trim_left s = s"
    by (simp add: trim_left.simps)
  have "last (bytes_of s) = of_char (last s)" and "bytes_of s \<noteq> []"
    using assms by (simp_all add: bytes_of_def last_map)
  then have "fst (decode_last_rune (bytes_of s)) = of_char (last s)"
    using assms by (simp add: decode_last_rune_def Let_def solid_def)
  with assms solid_not_space have "trim_right s = s"
    by (simp add: trim_right.simps)
  with l show ?thesis by (simp add: trim_space_def)
qed

lemma digit_solid: "is_digit_byte c \<Longrightarrow> solid c"
  by (simp add: is_digit_byte_def solid_def)

lemma trim_space_digits: "ascii_digits s \<Longrightarrow> trim_space s = s"
  by (cases "s = []")
    (auto simp: ascii_digits_def list_all_iff intro!: trim_space_solid digit_solid)

text \<open>\<open>strings.ReplaceAll(s, " ", "")\<close> and \<open>strings.HasPrefix\<close>.\<close>

definition remove_blanks :: "string \<Rightarrow> string" where
  "remove_blanks s = filter (\<lambda>c. c \<noteq> CHR '' '') s"

definition has_prefix :: "string \<Rightarrow> string \<Rightarrow> bool" where
  "has_prefix s p \<longleftrightarrow> take (length p) s = p"

lemma remove_blanks_digits: "ascii_digits s \<Longrightarrow> remove_blanks s = s"
  unfolding remove_blanks_def ascii_digits_def list_all_iff
  by (rule filter_True) (auto simp: is_digit_byte_def)

section \<open>Numbers\<close>

definition dec_value :: "string \<Rightarrow> nat" where
  "dec_value s = foldl (\<lambda>v c. 10 * v + digit_val c) 0 s"

lemma dec_value_acc:
  "foldl (\<lambda>v c. 10 * v + digit_val c) a s = a * 10 ^ length s + dec_value s"
proof (induction s arbitrary: a)
  case Nil
  then show ?case by (simp add: dec_value_def)
next
  case (Cons c s)
  show ?case
    using Cons [of "10 * a + digit_val c"] Cons [of "digit_val c"]
    by (simp add: dec_value_def algebra_simps)
qed

lemma dec_value_Nil [simp]: "dec_value [] = 0"
  by (simp add: dec_value_def)

lemma dec_value_Cons: "dec_value (c # s) = digit_val c * 10 ^ length s + dec_value s"
  using dec_value_acc [of "digit_val c" s] by (simp add: dec_value_def)

lemma dec_value_snoc: "dec_value (s @ [c]) = 10 * dec_value s + digit_val c"
  by (simp add: dec_value_def)

lemma dec_value_bound: "ascii_digits s \<Longrightarrow> dec_value s < 10 ^ length s"
proof (induction s)
  case (Cons c s)
  then have "digit_val c * 10 ^ length s \<le> 9 * 10 ^ length s"
    by (intro mult_right_mono) (auto intro: digit_val_le)
  moreover have "dec_value s < 10 ^ length s" using Cons by simp
  ultimately have "digit_val c * 10 ^ length s + dec_value s < 10 * 10 ^ length s"
    by linarith
  then show ?case by (simp only: dec_value_Cons length_Cons power_Suc)
qed simp

text \<open>\<open>strconv.Atoi\<close>: an optional sign, at least one digit, and a value in range.\<close>

definition atoi :: "string \<Rightarrow> int option" where
  "atoi s =
     (let neg = (s \<noteq> [] \<and> hd s = CHR ''-'');
          ds = (if s \<noteq> [] \<and> hd s \<in> {CHR ''-'', CHR ''+''} then tl s else s);
          v = (if neg then - int (dec_value ds) else int (dec_value ds))
      in if ds \<noteq> [] \<and> ascii_digits ds \<and> in_int64 v then Some v else None)"

lemma atoi_range: "atoi s = Some n \<Longrightarrow> in_int64 n"
  by (auto simp: atoi_def Let_def split: if_splits)

lemma atoi_Nil [simp]: "atoi [] = None"
  by (simp add: atoi_def)

end
