(* ===== verification/Go_Hex.thy ===== *)
theory Go_Hex
  imports Go_Strings
begin

text \<open>
  Go's \<open>encoding/hex\<close>: \<open>EncodeToString\<close> (lower case, also what \<open>%x\<close> prints for a byte slice)
  and \<open>DecodeString\<close> (either case, an error for an invalid digit or an odd length), and the
  \<open>%02X\<close> of one byte. The round trips are what both ends of the TCP link rely on.
\<close>

definition hex_char :: "nat \<Rightarrow> char" where
  "hex_char n = (if n < 10 then char_of (48 + n) else char_of (87 + n))"

definition hex_char_upper :: "nat \<Rightarrow> char" where
  "hex_char_upper n = (if n < 10 then char_of (48 + n) else char_of (55 + n))"

definition from_hex_char :: "char \<Rightarrow> nat option" where
  "from_hex_char c =
     (let b = of_char c :: nat in
      if 48 \<le> b \<and> b \<le> 57 then Some (b - 48)
      else if 97 \<le> b \<and> b \<le> 102 then Some (b - 87)
      else if 65 \<le> b \<and> b \<le> 70 then Some (b - 55)
      else None)"

definition hex_byte :: "byte \<Rightarrow> string" where
  "hex_byte b = [hex_char (unat b div 16), hex_char (unat b mod 16)]"

definition hex_byte_upper :: "byte \<Rightarrow> string" where
  "hex_byte_upper b = [hex_char_upper (unat b div 16), hex_char_upper (unat b mod 16)]"

definition hex_encode :: "byte list \<Rightarrow> string" where
  "hex_encode bs = concat (map hex_byte bs)"

definition err_hex_byte :: go_error where
  "err_hex_byte = Errorf ''encoding/hex: invalid byte''"

definition err_hex_length :: go_error where
  "err_hex_length = Errorf ''encoding/hex: odd length hex string''"

fun hex_decode :: "string \<Rightarrow> go_error + byte list" where
  "hex_decode [] = Inr []"
| "hex_decode [c] = (if from_hex_char c = None then Inl err_hex_byte else Inl err_hex_length)"
| "hex_decode (c # d # s) =
    (case (from_hex_char c, from_hex_char d) of
       (Some x, Some y) \<Rightarrow>
         (case hex_decode s of
            Inl e \<Rightarrow> Inl e
          | Inr bs \<Rightarrow> Inr (of_nat (16 * x + y) # bs))
     | _ \<Rightarrow> Inl err_hex_byte)"

section \<open>Round trips\<close>

lemma from_hex_char_hex_char [simp]: "n < 16 \<Longrightarrow> from_hex_char (hex_char n) = Some n"
  by (auto simp: hex_char_def from_hex_char_def Let_def)

lemma from_hex_char_upper [simp]: "n < 16 \<Longrightarrow> from_hex_char (hex_char_upper n) = Some n"
  by (auto simp: hex_char_upper_def from_hex_char_def Let_def)

lemma unat_byte_lt [simp]: "unat (b :: byte) < 256"
  using unsigned_less [of b] by simp

lemma unat_byte_div_lt [simp]: "unat (b :: byte) div 16 < 16"
  using unat_byte_lt [of b] by (simp add: less_mult_imp_div_less)

lemma nibbles_join [simp]: "of_nat (16 * (unat b div 16) + unat b mod 16) = (b :: byte)"
  by (simp only: mult_div_mod_eq) simp

lemma hex_encode_simps [simp]:
  "hex_encode [] = []"
  "hex_encode (b # bs) = hex_char (unat b div 16) # hex_char (unat b mod 16) # hex_encode bs"
  "hex_encode (bs @ cs) = hex_encode bs @ hex_encode cs"
  by (simp_all add: hex_encode_def hex_byte_def)

lemma length_hex_encode [simp]: "length (hex_encode bs) = 2 * length bs"
  by (induction bs) auto

lemma hex_decode_encode [simp]: "hex_decode (hex_encode bs) = Inr bs"
proof (induction bs)
  case (Cons b bs)
  then show ?case using nibbles_join [of b] by simp
qed simp

lemma hex_decode_upper_byte:
  "hex_decode (hex_byte_upper b @ s) =
     (case hex_decode s of Inl e \<Rightarrow> Inl e | Inr bs \<Rightarrow> Inr (b # bs))"
  using nibbles_join [of b] by (simp add: hex_byte_upper_def split: sum.splits)

lemma hex_decode_length: "hex_decode s = Inr bs \<Longrightarrow> length s = 2 * length bs"
  by (induction s arbitrary: bs rule: hex_decode.induct)
    (auto split: if_splits option.splits sum.splits)

lemma hex_decode_append:
  "hex_decode s = Inr bs \<Longrightarrow>
   hex_decode (s @ t) = (case hex_decode t of Inl e \<Rightarrow> Inl e | Inr cs \<Rightarrow> Inr (bs @ cs))"
  by (induction s arbitrary: bs rule: hex_decode.induct)
    (auto split: if_splits option.splits sum.splits)

lemma hex_encode_inject [simp]: "hex_encode bs = hex_encode cs \<longleftrightarrow> bs = cs"
  by (metis hex_decode_encode sum.inject(2))

end
