(* ===== verification/Iso.thy ===== *)
theory Iso
  imports Go_Hex
begin

text \<open>
  The message of internal/iso/model.go: one string per ISO 8583 field the program knows, empty
  where the field is absent.
\<close>

record ISOMessage =
  MTI :: string
  Bitmap :: string
  PAN :: string
  ProcCode :: string
  AmountTrn :: string
  AmountSet :: string
  AmountBil :: string
  TransDateTime :: string
  ConvRateSet :: string
  ConvRateBil :: string
  STAN :: string
  LocalTime :: string
  LocalDate :: string
  ExpDate :: string
  DateSet :: string
  DateConv :: string
  MerchantType :: string
  POSEntryMode :: string
  POSCondCode :: string
  POSPinCode :: string
  AcqInstID :: string
  Track2Data :: string
  RRN :: string
  AuthRespID :: string
  RespCode :: string
  TerminalID :: string
  MerchantID :: string
  MerchantLoc :: string
  AddDataNat :: string
  AddDataPriv :: string
  CurCodeTrn :: string
  CurCodeBil :: string
  PinData :: string
  SecurityData :: string
  AddAmounts :: string
  ICCData :: string
  Priv2 :: string
  ReservedPriv :: string
  NwManagementInf :: string

definition empty_message :: ISOMessage where
  "empty_message =
     \<lparr>MTI = [], Bitmap = [], PAN = [], ProcCode = [], AmountTrn = [],
      AmountSet = [], AmountBil = [], TransDateTime = [], ConvRateSet = [], ConvRateBil = [],
      STAN = [], LocalTime = [], LocalDate = [], ExpDate = [], DateSet = [],
      DateConv = [], MerchantType = [], POSEntryMode = [], POSCondCode = [], POSPinCode = [],
      AcqInstID = [], Track2Data = [], RRN = [], AuthRespID = [], RespCode = [],
      TerminalID = [], MerchantID = [], MerchantLoc = [], AddDataNat = [], AddDataPriv = [],
      CurCodeTrn = [], CurCodeBil = [], PinData = [], SecurityData = [], AddAmounts = [],
      ICCData = [], Priv2 = [], ReservedPriv = [], NwManagementInf = []\<rparr>"

section \<open>The codec\<close>

text \<open>
  Packing and unpacking ISO 8583 is done by the library moov-io/iso8583, which is not part of
  the repository: it is the parameter \<open>iso_lib\<close>, one field per library call the codec makes,
  over the library's own message type \<open>'m\<close> (already tied to the loaded field specification).
  \<open>lib_marshal\<close> stands for \<open>msg.MTI(m.MTI)\<close> followed by \<open>msg.Marshal(m)\<close> on a new message.
\<close>

record 'm iso_lib =
  lib_unpack :: "byte list \<Rightarrow> go_error + 'm"
  lib_unmarshal :: "'m \<Rightarrow> go_error + ISOMessage"
  lib_get_mti :: "'m \<Rightarrow> go_error + string"
  lib_marshal :: "string \<Rightarrow> ISOMessage \<Rightarrow> go_error + 'm"
  lib_pack :: "'m \<Rightarrow> go_error + byte list"

definition ParseHexToMessage :: "'m iso_lib \<Rightarrow> string \<Rightarrow> go_error + ISOMessage" where
  "ParseHexToMessage lib hexStr =
     (if length hexStr = 0 then Inl (Errorf ''empty hex string'')
      else if length hexStr mod 2 \<noteq> 0 then Inl (Errorf ''invalid hex length: must be even'')
      else case hex_decode hexStr of
        Inl e \<Rightarrow> Inl (Wrapf ''invalid hex'' e)
      | Inr rawBytes \<Rightarrow>
          (case lib_unpack lib rawBytes of
             Inl e \<Rightarrow> Inl (Wrapf ''unpack ISO8583 message'' e)
           | Inr msg \<Rightarrow>
               (case lib_unmarshal lib msg of
                  Inl e \<Rightarrow> Inl (Wrapf ''unmarshal ISOMessage'' e)
                | Inr data \<Rightarrow>
                    (case lib_get_mti lib msg of
                       Inr mti \<Rightarrow> Inr (data\<lparr>MTI := mti\<rparr>)
                     | Inl _ \<Rightarrow> Inr data))))"

definition PackMessageToHex :: "'m iso_lib \<Rightarrow> ISOMessage option \<Rightarrow> go_error + string" where
  "PackMessageToHex lib m =
     (case m of
        None \<Rightarrow> Inl (Errorf ''message is nil'')
      | Some m \<Rightarrow>
          (case lib_marshal lib (MTI m) m of
             Inl e \<Rightarrow> Inl (Wrapf ''marshal ISOMessage'' e)
           | Inr msg \<Rightarrow>
               (case lib_pack lib msg of
                  Inl e \<Rightarrow> Inl (Wrapf ''pack ISO8583 message'' e)
                | Inr rawBytes \<Rightarrow> Inr (hex_encode rawBytes))))"

text \<open>
  What the code relies on in the library: a packed message is not empty and unpacks to the
  fields that were marshalled. The bitmap is rebuilt by the library and the struct tag keeps
  it out of the marshalled fields, so it comes back empty.
\<close>

definition iso_lib_faithful :: "'m iso_lib \<Rightarrow> bool" where
  "iso_lib_faithful lib \<longleftrightarrow>
     (\<forall>m x bs. lib_marshal lib (MTI m) m = Inr x \<longrightarrow> lib_pack lib x = Inr bs \<longrightarrow>
        bs \<noteq> [] \<and>
        (\<exists>y m'. lib_unpack lib bs = Inr y \<and> lib_get_mti lib y = Inr (MTI m) \<and>
           lib_unmarshal lib y = Inr m' \<and> m'\<lparr>MTI := MTI m\<rparr> = m\<lparr>Bitmap := []\<rparr>))"

lemma PackMessageToHex_bytes:
  "PackMessageToHex lib (Some m) = Inr h \<Longrightarrow> \<exists>bs. h = hex_encode bs"
  by (auto simp: PackMessageToHex_def split: sum.splits)

lemma pack_parse:
  assumes "iso_lib_faithful lib" "PackMessageToHex lib (Some m) = Inr h"
  shows "ParseHexToMessage lib h = Inr (m\<lparr>Bitmap := []\<rparr>)"
proof -
  obtain x bs where x: "lib_marshal lib (MTI m) m = Inr x" "lib_pack lib x = Inr bs"
    and h: "h = hex_encode bs"
    using assms(2) by (auto simp: PackMessageToHex_def split: sum.splits)
  from assms(1) x obtain y m' where "bs \<noteq> []" "lib_unpack lib bs = Inr y"
    "lib_get_mti lib y = Inr (MTI m)" "lib_unmarshal lib y = Inr m'"
    "m'\<lparr>MTI := MTI m\<rparr> = m\<lparr>Bitmap := []\<rparr>"
    unfolding iso_lib_faithful_def by blast
  then show ?thesis by (simp add: ParseHexToMessage_def h)
qed

text \<open>A message with no bitmap text survives the codec unchanged.\<close>

lemma pack_parse_same:
  assumes "iso_lib_faithful lib" "PackMessageToHex lib (Some m) = Inr h" "Bitmap m = []"
  shows "ParseHexToMessage lib h = Inr m"
proof -
  have "m\<lparr>Bitmap := []\<rparr> = m" using assms(3) by (cases m) simp
  with pack_parse [OF assms(1,2)] show ?thesis by simp
qed

section \<open>The response MTI\<close>

text \<open>
  \<open>if len(resp.MTI) == 4 { resp.MTI = resp.MTI[:2] + "10" }\<close>, shared by the three places
  that start a response from a copy of the request.
\<close>

definition response_of :: "ISOMessage \<Rightarrow> ISOMessage" where
  "response_of req =
     (if length (MTI req) = 4 then req\<lparr>MTI := take 2 (MTI req) @ ''10''\<rparr> else req)"

lemma response_of_fields [simp]:
  "PAN (response_of m) = PAN m" "AmountTrn (response_of m) = AmountTrn m"
  "STAN (response_of m) = STAN m" "Bitmap (response_of m) = Bitmap m"
  "RespCode (response_of m) = RespCode m" "AuthRespID (response_of m) = AuthRespID m"
  by (simp_all add: response_of_def)

lemma length_response_MTI [simp]: "length (MTI (response_of m)) = length (MTI m)"
  by (simp add: response_of_def)

end
