(* ===== verification/Util.thy ===== *)
theory Util
  imports Go_Hex
begin

text \<open>
  The helpers of internal/util/util.go: \<open>MaskPAN\<close>, which hides the middle of a card number in
  logs and audit rows, and \<open>ParseAmount12\<close>, which reads field 4 of a message as a 64-bit
  number of minor units. The lemmas show what a mask reveals and that the parser is exact:
  it accepts the 12-digit strings, never wraps, and inverts zero-padded printing.
\<close>

section \<open>MaskPAN\<close>

definition stars :: "nat \<Rightarrow> string" where
  "stars n = replicate n (CHR ''*'')"

definition MaskPAN :: "string \<Rightarrow> string" where
  "MaskPAN pan =
     (if length pan \<le> 6 then stars (length pan)
      else if length pan \<le> 10 then take 4 pan @ stars (length pan - 4)
      else take 4 pan @ stars (length pan - 8) @ drop (length pan - 4) pan)"

lemma length_stars [simp]: "length (stars n) = n"
  by (simp add: stars_def)

lemma length_MaskPAN [simp]: "length (MaskPAN pan) = length pan"
  by (auto simp: MaskPAN_def)

lemma MaskPAN_middle:
  assumes "4 \<le> i" "i < length pan - 4"
  shows "MaskPAN pan ! i = CHR ''*''"
  using assms by (auto simp: MaskPAN_def stars_def nth_append)

lemma MaskPAN_ends_only:
  assumes "length p = length q" "take 4 p = take 4 q" "drop (length p - 4) p = drop (length q - 4) q"
  shows "MaskPAN p = MaskPAN q"
  using assms by (simp add: MaskPAN_def)

section \<open>ParseAmount12\<close>

text \<open>The loop \<open>v = v*10 + int64(b-'0')\<close>, on 64-bit words.\<close>

fun amount_loop :: "u64 \<Rightarrow> string \<Rightarrow> u64 option" where
  "amount_loop v [] = Some v"
| "amount_loop v (b # s) =
    (if \<not> is_digit_byte b then None else amount_loop (v * 10 + of_nat (digit_val b)) s)"

definition ParseAmount12 :: "string \<Rightarrow> go_error + int64" where
  "ParseAmount12 s =
     (if length s \<noteq> 12 then Inl (Errorf ''amount must be 12 digits'')
      else case amount_loop 0 s of
             None \<Rightarrow> Inl (Errorf ''amount must be digits'')
           | Some v \<Rightarrow> Inr (sint v))"

lemma amount_loop_digits:
  "amount_loop v s =
     (if ascii_digits s
      then Some (of_nat (foldl (\<lambda>v c. 10 * v + digit_val c) (unat v) s)) else None)"
proof (induction s arbitrary: v)
  case Nil
  then show ?case by simp
next
  case (Cons c s)
  have "of_nat (foldl (\<lambda>v c. 10 * v + digit_val c) a s) =
        (of_nat (a * 10 ^ length s + dec_value s) :: u64)" for a
    by (simp only: dec_value_acc)
  moreover have "(of_nat (unat (v * 10 + of_nat (digit_val c)) * 10 ^ length s) :: u64) =
        of_nat ((10 * unat v + digit_val c) * 10 ^ length s)"
    by (simp add: algebra_simps)
  ultimately show ?case by (simp add: Cons)
qed

lemma amount_loop_zero:
  "amount_loop 0 s = (if ascii_digits s then Some (of_nat (dec_value s)) else None)"
  by (simp add: amount_loop_digits dec_value_def)

lemma sint_small_nat: "n < 10 ^ 12 \<Longrightarrow> sint (of_nat n :: u64) = int n"
  using sint_of_int_int64 [of "int n"]
  by (simp add: in_int64_def int64_min_def int64_max_def)

lemma ParseAmount12_eq:
  "ParseAmount12 s =
     (if length s \<noteq> 12 then Inl (Errorf ''amount must be 12 digits'')
      else if ascii_digits s then Inr (int (dec_value s))
      else Inl (Errorf ''amount must be digits''))"
  using dec_value_bound [of s]
  by (auto simp: ParseAmount12_def amount_loop_zero sint_small_nat)

lemma ParseAmount12_InrD:
  assumes "ParseAmount12 s = Inr v"
  shows "length s = 12" "ascii_digits s" "v = int (dec_value s)" "0 \<le> v" "v < 10 ^ 12"
  using assms dec_value_bound [of s] by (auto simp: ParseAmount12_eq split: if_splits)

text \<open>Zero-padded decimal printing, the format the callers put in field 4.\<close>

fun dec_digits :: "nat \<Rightarrow> nat \<Rightarrow> string" where
  "dec_digits 0 n = []"
| "dec_digits (Suc k) n = dec_digits k (n div 10) @ [char_of (48 + n mod 10)]"

lemma digit_char [simp]:
  "d < 10 \<Longrightarrow> is_digit_byte (char_of (48 + d))"
  "d < 10 \<Longrightarrow> digit_val (char_of (48 + d)) = d"
  by (simp_all add: is_digit_byte_def digit_val_def)

lemma length_dec_digits [simp]: "length (dec_digits k n) = k"
  by (induction k arbitrary: n) auto

lemma ascii_dec_digits [simp]: "ascii_digits (dec_digits k n)"
  by (induction k arbitrary: n) auto

lemma dec_value_dec_digits: "dec_value (dec_digits k n) = n mod 10 ^ k"
proof (induction k arbitrary: n)
  case (Suc k)
  then show ?case by (simp add: dec_value_snoc mod_mult2_eq)
qed simp

lemma dec_digits_dec_value: "ascii_digits s \<Longrightarrow> dec_digits (length s) (dec_value s) = s"
proof (induction s rule: rev_induct)
  case (snoc c s)
  then have "char_of (48 + digit_val c) = c" and "digit_val c < 10"
    by (auto simp: digit_val_def is_digit_byte_def)
  with snoc show ?case by (simp add: dec_value_snoc)
qed simp

lemma ParseAmount12_print: "n < 10 ^ 12 \<Longrightarrow> ParseAmount12 (dec_digits 12 n) = Inr (int n)"
  by (simp only: ParseAmount12_eq dec_value_dec_digits length_dec_digits ascii_dec_digits
      mod_less) simp

lemma ParseAmount12_unprint: "ParseAmount12 s = Inr v \<Longrightarrow> s = dec_digits 12 (nat v)"
  using ParseAmount12_InrD [of s v] dec_digits_dec_value [of s] by simp

section \<open>What callers rely on\<close>

text \<open>
  C24. Field 4 is read exactly: a text is an amount when it is twelve digits, its value is the
  number they write, below 10^12, so the 64-bit accumulator never wraps; and printing the value
  with leading zeros gives the text back.
\<close>

theorem amount_exact:
  "ParseAmount12 s = Inr v \<longleftrightarrow> length s = 12 \<and> ascii_digits s \<and> v = int (dec_value s) \<and> v < 10 ^ 12 \<and>
     s = dec_digits 12 (nat v)"
proof
  assume "ParseAmount12 s = Inr v"
  then show "length s = 12 \<and> ascii_digits s \<and> v = int (dec_value s) \<and> v < 10 ^ 12 \<and>
      s = dec_digits 12 (nat v)"
    using ParseAmount12_InrD ParseAmount12_unprint by blast
next
  assume "length s = 12 \<and> ascii_digits s \<and> v = int (dec_value s) \<and> v < 10 ^ 12 \<and>
      s = dec_digits 12 (nat v)"
  then have "length s = 12" "ascii_digits s" "v = int (dec_value s)" by blast+
  then show "ParseAmount12 s = Inr v" by (simp only: ParseAmount12_eq) simp
qed

text \<open>
  What a mask reveals: at most the first four and the last four characters. It has the
  length of the number, every other character is a star, and two numbers of one length that agree
  on those eight have the same mask.
\<close>

lemma mask_hides:
  "length (MaskPAN p) = length p \<and>
   (\<forall>i. 4 \<le> i \<and> i < length p - 4 \<longrightarrow> MaskPAN p ! i = CHR ''*'') \<and>
   (\<forall>q. length q = length p \<and> take 4 q = take 4 p \<and> drop (length p - 4) q = drop (length p - 4) p
      \<longrightarrow> MaskPAN q = MaskPAN p)"
proof (intro conjI allI impI)
  show "length (MaskPAN p) = length p" by simp
  show "MaskPAN p ! i = CHR ''*''" if "4 \<le> i \<and> i < length p - 4" for i
    using that by (simp only: MaskPAN_middle)
  show "MaskPAN q = MaskPAN p"
    if "length q = length p \<and> take 4 q = take 4 p \<and> drop (length p - 4) q = drop (length p - 4) p" for q
    by (rule MaskPAN_ends_only) (simp_all only: that)
qed

end
