(* ===== verification/Store.thy ===== *)
theory Store
  imports Util
begin

text \<open>
  internal/store/store.go: the rows the services exchange with the database and the interface
  \<open>CardStore\<close> they use it through. A Go interface value is a record of the operations it
  offers, over the state \<open>'s\<close> behind it; a caller receives the record as an argument.

  The locale \<open>card_store\<close> is the contract of that interface, in terms of the money view of the
  state (the balance each PAN holds): what a debit, a credit and a lookup do to it, with errors
  and lost replies included. The clients' lemmas are proved under it.
\<close>

section \<open>Rows\<close>

type_synonym time = int

record Card =
  c_ID :: string
  c_PAN :: string
  c_ExpiryDate :: string
  c_Status :: string
  c_Scheme :: string
  c_CurrencyCode :: string
  c_CreditLimit :: int64
  c_AvailableBalance :: int64
  c_PinHash :: "string option"
  c_CvvHash :: "string option"
  c_CreatedAt :: time
  c_UpdatedAt :: time

record AcquirerTransaction =
  at_ID :: string
  at_STAN :: string
  at_RRN :: "string option"
  at_MTI :: string
  at_PANMasked :: string
  at_Amount :: int64
  at_CurrencyCode :: string
  at_TerminalID :: "string option"
  at_MerchantID :: "string option"
  at_Status :: string
  at_ResponseCode :: "string option"
  at_RequestHex :: "string option"
  at_ResponseHex :: "string option"
  at_CreatedAt :: time
  at_UpdatedAt :: time

text \<open>\<open>ProcessingTimeMs\<close> is kept as the measured nanoseconds, not as a float.\<close>

record IssuerTransaction =
  it_ID :: string
  it_STAN :: string
  it_RRN :: "string option"
  it_MTI :: string
  it_PANMasked :: string
  it_Amount :: int64
  it_CurrencyCode :: string
  it_Status :: string
  it_ResponseCode :: "string option"
  it_AuthCode :: "string option"
  it_DeclineReason :: "string option"
  it_BalanceBefore :: "int64 option"
  it_BalanceAfter :: "int64 option"
  it_ProcessingTime :: "int option"
  it_CreatedAt :: time
  it_UpdatedAt :: time

record AuthorizeDebitResult =
  r_Card :: "Card option"
  r_BalanceBefore :: int64
  r_BalanceAfter :: int64
  r_Debited :: bool

section \<open>The environment of one call\<close>

text \<open>
  What the database server and the network decide about one statement: it runs and its reply
  arrives (\<open>Done\<close>), it fails without effect for a reason outside the model (connection, server,
  rejected value), or it runs and the reply is lost, so the caller sees an error although the
  effect is there. \<open>q_acquire\<close> is an error in taking a connection from the pool (for the method
  that takes one itself), \<open>q_now\<close> is the server's NOW() and \<open>q_id\<close> the id a new row gets.
\<close>

datatype fault = Done | FailedBefore go_error | LostReply go_error

record query_env =
  q_acquire :: "go_error option"
  q_fault :: fault
  q_now :: time
  q_id :: string

section \<open>The interface\<close>

record 's CardStore =
  cs_CreateCard :: "query_env \<Rightarrow> Card option \<Rightarrow> 's \<Rightarrow> (go_error + Card) \<times> 's"
  cs_GetCardByID :: "query_env \<Rightarrow> string \<Rightarrow> 's \<Rightarrow> (go_error + Card option) \<times> 's"
  cs_GetCardByPAN :: "query_env \<Rightarrow> string \<Rightarrow> 's \<Rightarrow> (go_error + Card option) \<times> 's"
  cs_CreditBalance :: "query_env \<Rightarrow> string \<Rightarrow> int64 \<Rightarrow> 's \<Rightarrow> (go_error + unit) \<times> 's"
  cs_ListCards :: "query_env \<Rightarrow> int \<Rightarrow> int \<Rightarrow> 's \<Rightarrow> (go_error + Card list) \<times> 's"
  cs_UpdateCard :: "query_env \<Rightarrow> Card \<Rightarrow> 's \<Rightarrow> (go_error + Card) \<times> 's"
  cs_SoftDeleteCard :: "query_env \<Rightarrow> string \<Rightarrow> 's \<Rightarrow> (go_error + unit) \<times> 's"
  cs_UpdateCardBalance :: "query_env \<Rightarrow> string \<Rightarrow> int64 \<Rightarrow> 's \<Rightarrow> (go_error + unit) \<times> 's"
  cs_DebitIfSufficient ::
    "query_env \<Rightarrow> string \<Rightarrow> int64 \<Rightarrow> 's \<Rightarrow> (go_error + int64 \<times> int64 \<times> bool) \<times> 's"
  cs_AuthorizeAndDebit ::
    "query_env \<Rightarrow> string \<Rightarrow> int64 \<Rightarrow> 's \<Rightarrow> (go_error + AuthorizeDebitResult option) \<times> 's"

section \<open>The money view\<close>

text \<open>Balances by PAN, and the movement of an amount on one of them.\<close>

type_synonym ledger = "string \<rightharpoonup> int64"

definition move :: "ledger \<Rightarrow> string \<Rightarrow> int64 \<Rightarrow> ledger" where
  "move L pan d = L(pan := map_option (\<lambda>b. b + d) (L pan))"

lemma move_zero [simp]: "move L pan 0 = L"
  by (simp add: move_def option.map_ident)

lemma move_None [simp]: "L pan = None \<Longrightarrow> move L pan d = L"
  by (auto simp: move_def)

lemma move_same [simp]: "L pan = Some b \<Longrightarrow> move L pan d pan = Some (b + d)"
  by (simp add: move_def)

lemma move_other [simp]: "p \<noteq> pan \<Longrightarrow> move L pan d p = L p"
  by (simp add: move_def)

lemma dom_move [simp]: "dom (move L pan d) = dom L"
  by (auto simp: move_def split: if_splits)

lemma move_move [simp]: "move (move L pan d) pan e = move L pan (d + e)"
  by (rule ext) (simp add: move_def option.map_comp comp_def add.assoc)

section \<open>The contract\<close>

locale card_store =
  fixes ops :: "'s CardStore"
    and inv :: "'s \<Rightarrow> bool"
    and bal :: "'s \<Rightarrow> ledger"
    and active :: "'s \<Rightarrow> string \<Rightarrow> bool"
  assumes lookup_pan:
      "inv s \<Longrightarrow> cs_GetCardByPAN ops q pan s = (x, s') \<Longrightarrow>
       s' = s \<and> (\<forall>c. x = Inr (Some c) \<longrightarrow> c_PAN c = pan \<and> bal s pan = Some (c_AvailableBalance c))"
    and credit_ok:
      "inv s \<Longrightarrow> cs_GetCardByPAN ops q pan s = (Inr (Some c), s') \<Longrightarrow>
       cs_CreditBalance ops q' (c_ID c) a s = (Inr (), t) \<Longrightarrow>
       0 < a \<and> bal t = move (bal s) pan a \<and> active t = active s \<and> inv t"
    and credit_err:
      "inv s \<Longrightarrow> cs_GetCardByPAN ops q pan s = (Inr (Some c), s') \<Longrightarrow>
       cs_CreditBalance ops q' (c_ID c) a s = (Inl e, t) \<Longrightarrow>
       (bal t = bal s \<or> 0 < a \<and> bal t = move (bal s) pan a) \<and> active t = active s \<and> inv t"
    and debit_found:
      "inv s \<Longrightarrow> cs_AuthorizeAndDebit ops q pan a s = (Inr (Some r), t) \<Longrightarrow>
       0 < a \<and> inv t \<and> active t = active s \<and>
       (\<exists>c. r_Card r = Some c \<and> c_PAN c = pan \<and> bal s pan = Some (c_AvailableBalance c) \<and>
          (active s pan \<longleftrightarrow> c_Status c = ''ACTIVE'') \<and>
          (r_Debited r \<longleftrightarrow> active s pan \<and> a \<le> c_AvailableBalance c) \<and>
          (r_Debited r \<longrightarrow> r_BalanceBefore r = c_AvailableBalance c
                         \<and> r_BalanceAfter r = c_AvailableBalance c - a) \<and>
          bal t = (if r_Debited r then move (bal s) pan (- a) else bal s))"
    and debit_absent:
      "inv s \<Longrightarrow> cs_AuthorizeAndDebit ops q pan a s = (Inr None, t) \<Longrightarrow>
       bal s pan = None \<and> t = s"
    and debit_err:
      "inv s \<Longrightarrow> cs_AuthorizeAndDebit ops q pan a s = (Inl e, t) \<Longrightarrow>
       inv t \<and> active t = active s \<and>
       (bal t = bal s \<or>
        0 < a \<and> active s pan \<and> (\<exists>b. bal s pan = Some b \<and> a \<le> b) \<and> bal t = move (bal s) pan (- a))"
begin

lemmas debit_laws = debit_found debit_absent debit_err

text \<open>Whatever it answers, a debit never creates money and never overdraws an account.\<close>

lemma debit_never_overdraws:
  assumes "inv s" "cs_AuthorizeAndDebit ops q pan a s = (x, t)"
    and "bal s p = Some b" "0 \<le> b"
  shows "\<exists>b'. bal t p = Some b' \<and> 0 \<le> b' \<and> b' \<le> b"
proof -
  consider (err) e where "x = Inl e" | (no) "x = Inr None" | (hit) r where "x = Inr (Some r)"
    by (cases x; cases "projr x") auto
  then show ?thesis
  proof cases
    case err
    with assms debit_err [OF assms(1), of q pan a e t] show ?thesis
      by (cases "p = pan") auto
  next
    case no
    with assms debit_absent [OF assms(1), of q pan a t] show ?thesis by auto
  next
    case hit
    with assms debit_found [OF assms(1), of q pan a r t] show ?thesis
      by (cases "p = pan") (auto split: if_splits)
  qed
qed

end

end
