(* ===== verification/Auth_Rules.thy ===== *)
theory Auth_Rules
  imports Store
begin

text \<open>
  internal/auth/codes.go and rules.go: the response codes, the reading of a YYMM expiry date and
  the static checks on a card. Instants are nanoseconds since 1970-01-01 UTC; \<open>time_Date\<close> is what
  \<open>time.Date(year, month, 1, 0, 0, 0, 0, time.UTC)\<close> computes, a month above 12 carrying into
  the year. The lemmas relate the check to calendar months.
\<close>

section \<open>Response codes\<close>

definition RespApproved :: string where "RespApproved = ''00''"
definition RespDoNotHonor :: string where "RespDoNotHonor = ''05''"
definition RespInvalidCardNumber :: string where "RespInvalidCardNumber = ''14''"
definition RespInsufficientFunds :: string where "RespInsufficientFunds = ''51''"
definition RespExpiredCard :: string where "RespExpiredCard = ''54''"
definition RespBlockedCard :: string where "RespBlockedCard = ''78''"
definition RespSystemMalfunction :: string where "RespSystemMalfunction = ''96''"

lemmas resp_codes =
  RespApproved_def RespDoNotHonor_def RespInvalidCardNumber_def RespInsufficientFunds_def
  RespExpiredCard_def RespBlockedCard_def RespSystemMalfunction_def

lemma resp_distinct [simp]:
  "RespDoNotHonor \<noteq> RespApproved" "RespInvalidCardNumber \<noteq> RespApproved"
  "RespInsufficientFunds \<noteq> RespApproved" "RespExpiredCard \<noteq> RespApproved"
  "RespBlockedCard \<noteq> RespApproved" "RespSystemMalfunction \<noteq> RespApproved"
  "RespApproved \<noteq> RespSystemMalfunction" "RespDoNotHonor \<noteq> RespSystemMalfunction"
  "RespInvalidCardNumber \<noteq> RespSystemMalfunction" "RespInsufficientFunds \<noteq> RespSystemMalfunction"
  "RespExpiredCard \<noteq> RespSystemMalfunction" "RespBlockedCard \<noteq> RespSystemMalfunction"
  by (simp_all add: resp_codes)

section \<open>The calendar\<close>

definition ns_per_day :: int where "ns_per_day = 86400 * 1000000000"

definition is_leap :: "int \<Rightarrow> bool" where
  "is_leap y \<longleftrightarrow> y mod 4 = 0 \<and> (y mod 100 \<noteq> 0 \<or> y mod 400 = 0)"

text \<open>Days from the start of 1970 to the start of year \<open>y\<close>.\<close>

definition leaps_before :: "int \<Rightarrow> int" where
  "leaps_before y = (y - 1) div 4 - (y - 1) div 100 + (y - 1) div 400"

definition year_days :: "int \<Rightarrow> int" where
  "year_days y = 365 * (y - 1970) + leaps_before y - leaps_before 1970"

definition month_days :: "int \<Rightarrow> int \<Rightarrow> int" where
  "month_days y m =
     (if m = 1 then 0 else if m = 2 then 31
      else (if is_leap y then 1 else 0) +
        (if m = 3 then 59 else if m = 4 then 90 else if m = 5 then 120 else if m = 6 then 151
         else if m = 7 then 181 else if m = 8 then 212 else if m = 9 then 243
         else if m = 10 then 273 else if m = 11 then 304 else 334))"

text \<open>\<open>time.Date(year, month, 1, 0, 0, 0, 0, time.UTC)\<close>.\<close>

definition time_Date :: "int \<Rightarrow> int \<Rightarrow> time" where
  "time_Date year month =
     (let y = year + (month - 1) div 12; m = (month - 1) mod 12 + 1
      in ns_per_day * (year_days y + month_days y m))"

lemma time_Date_epoch: "time_Date 1970 1 = 0"
  by (simp add: time_Date_def year_days_def month_days_def)

lemma time_Date_carry: "time_Date year (month + 12) = time_Date (year + 1) month"
proof -
  have "month + 12 - 1 = (month - 1) + 12" by simp
  then have "(month + 12 - 1) div 12 = (month - 1) div 12 + 1"
    and "(month + 12 - 1) mod 12 = (month - 1) mod 12"
    by (simp_all only: div_add_self2 mod_add_self2)
  then show ?thesis by (simp add: time_Date_def Let_def ac_simps)
qed

lemma div_step: "0 < d \<Longrightarrow> y div d = (y - 1) div d + (if d dvd y then 1 else 0)" for d y :: int
proof -
  assume d: "0 < d"
  define q r where "q = y div d" and "r = y mod d"
  have y: "y = d * q + r" and r: "0 \<le> r" "r < d" using d by (simp_all add: q_def r_def)
  have dvd: "d dvd y \<longleftrightarrow> r = 0" by (simp add: r_def dvd_eq_mod_eq_0)
  have "(y - 1) div d = (if r = 0 then q - 1 else q)"
  proof (cases "r = 0")
    case True
    have "(y - 1) div d = q - 1"
      by (rule int_div_pos_eq [of _ _ _ "d - 1"]) (use d True y in \<open>simp_all add: algebra_simps\<close>)
    with True show ?thesis by simp
  next
    case False
    have "(y - 1) div d = q"
      by (rule int_div_pos_eq [of _ _ _ "r - 1"]) (use False y r in simp_all)
    with False show ?thesis by simp
  qed
  then show ?thesis by (simp add: dvd flip: q_def)
qed

lemma leap_rule:
  fixes a b c a' b' c' :: int
  assumes "a = a' + (if p4 then 1 else 0)" "b = b' + (if p100 then 1 else 0)"
    "c = c' + (if p400 then 1 else 0)" "p400 \<Longrightarrow> p100" "p100 \<Longrightarrow> p4"
  shows "a - b + c = a' - b' + c' + (if p4 \<and> (\<not> p100 \<or> p400) then 1 else 0)"
  using assms by (cases p4; cases p100; cases p400) simp_all

lemma leaps_step: "leaps_before (y + 1) = leaps_before y + (if is_leap y then 1 else 0)"
proof -
  have "(100::int) dvd 400" and "(4::int) dvd 100" by simp_all
  then have "400 dvd y \<Longrightarrow> 100 dvd y" and "100 dvd y \<Longrightarrow> 4 dvd y"
    using dvd_trans by blast+
  then have "y div 4 - y div 100 + y div 400 = leaps_before y
      + (if 4 dvd y \<and> (\<not> 100 dvd y \<or> 400 dvd y) then 1 else 0)"
    unfolding leaps_before_def by (intro leap_rule div_step) simp_all
  then show ?thesis
    by (simp only: leaps_before_def [of "y + 1"] is_leap_def dvd_eq_mod_eq_0 add_diff_cancel_right')
qed

lemma year_days_step: "year_days (y + 1) = year_days y + (if is_leap y then 366 else 365)"
  by (simp add: year_days_def leaps_step)

lemma div_mod_12:
  "0 \<le> m \<Longrightarrow> m < 12 \<Longrightarrow> (12 * y + m) div 12 = y \<and> (12 * y + m) mod 12 = (m :: int)"
  by (simp add: div_pos_pos_trivial mod_pos_pos_trivial)

text \<open>Months in order, numbered through the years.\<close>

definition month_start :: "int \<Rightarrow> time" where
  "month_start k = time_Date (k div 12) (k mod 12 + 1)"

lemma time_Date_month_start:
  "1 \<le> m \<Longrightarrow> m \<le> 13 \<Longrightarrow> time_Date y m = month_start (12 * y + m - 1)"
proof -
  assume m: "1 \<le> m" "m \<le> 13"
  show ?thesis
  proof (cases "m = 13")
    case True
    then show ?thesis using time_Date_carry [of y 1] by (simp add: month_start_def add.commute)
  next
    case False
    with m div_mod_12 [of "m - 1" y] have "(12 * y + m - 1) div 12 = y" "(12 * y + m - 1) mod 12 = m - 1"
      by (simp_all add: add_diff_eq)
    then show ?thesis by (simp add: month_start_def)
  qed
qed

lemma month_start_step: "month_start k + 28 * ns_per_day \<le> month_start (k + 1)"
proof -
  define y m where "y = k div 12" and "m = k mod 12"
  have k: "k = 12 * y + m" and m: "0 \<le> m" "m < 12" by (simp_all add: y_def m_def)
  have days: "month_start k = ns_per_day * (year_days y + month_days y (m + 1))"
    using m by (simp add: month_start_def time_Date_def k Let_def)
  show ?thesis
  proof (cases "m = 11")
    case True
    then have "month_start (k + 1) = ns_per_day * year_days (y + 1)"
      by (simp add: month_start_def time_Date_def k month_days_def Let_def add.commute)
    with days True show ?thesis
      by (simp add: year_days_step month_days_def ns_per_day_def)
  next
    case False
    then have "(12 * y + m + 1) div 12 = y" "(12 * y + m + 1) mod 12 = m + 1"
      using m div_mod_12 [of "m + 1" y] by (simp_all add: add.assoc)
    then have next_days: "month_start (k + 1) = ns_per_day * (year_days y + month_days y (m + 2))"
      using m False by (simp add: month_start_def time_Date_def k Let_def add.commute)
    have "m = 0 \<or> m = 1 \<or> m = 2 \<or> m = 3 \<or> m = 4 \<or> m = 5 \<or> m = 6 \<or> m = 7 \<or> m = 8 \<or> m = 9 \<or> m = 10"
      using m False by presburger
    then have "month_days y (m + 1) + 28 \<le> month_days y (m + 2)"
      by (auto simp: month_days_def)
    then show ?thesis unfolding days next_days by (simp add: ns_per_day_def)
  qed
qed

lemma month_start_mono: "i \<le> j \<Longrightarrow> month_start i \<le> month_start j"
proof (induction j rule: int_ge_induct)
  case (step j)
  with month_start_step [of j] show ?case by (simp add: ns_per_day_def)
qed simp

lemma month_start_less: "i < j \<Longrightarrow> month_start i + 28 * ns_per_day \<le> month_start j"
  using month_start_mono [of "i + 1" j] month_start_step [of i] by simp

section \<open>Expiry\<close>

definition atoi2 :: "string \<Rightarrow> go_error + int" where
  "atoi2 s =
     (if length s \<noteq> 2 then Inl (Errorf ''invalid len'')
      else if \<not> is_digit_byte (s ! 0) \<or> \<not> is_digit_byte (s ! 1) then Inl (Errorf ''invalid digit'')
      else Inr (int (digit_val (s ! 0)) * 10 + int (digit_val (s ! 1))))"

definition expiryValidYYMM :: "string \<Rightarrow> time \<Rightarrow> bool" where
  "expiryValidYYMM expYYMM now =
     (if length expYYMM \<noteq> 4 then False
      else case atoi2 (take 2 expYYMM) of
        Inl _ \<Rightarrow> False
      | Inr y \<Rightarrow>
          (case atoi2 (drop 2 expYYMM) of
             Inl _ \<Rightarrow> False
           | Inr m \<Rightarrow>
               if m < 1 \<or> m > 12 then False
               else
                 let year = 2000 + y;
                     firstOfNext = time_Date year (m + 1);
                     endOfMonth = firstOfNext - 1
                 in now < endOfMonth))"

text \<open>The (year, month) a YYMM text names, when it names one.\<close>

definition expiry_month :: "string \<Rightarrow> (int \<times> int) option" where
  "expiry_month s =
     (if length s = 4 \<and> ascii_digits s
      then let y = 2000 + int (dec_value (take 2 s)); m = int (dec_value (drop 2 s))
           in if 1 \<le> m \<and> m \<le> 12 then Some (y, m) else None
      else None)"

lemma atoi2_eq: "length s = 2 \<Longrightarrow>
  atoi2 s = (if ascii_digits s then Inr (int (dec_value s)) else Inl (Errorf ''invalid digit''))"
  by (auto simp: atoi2_def dec_value_def dest!: list_of_length_2)

lemma expiryValid_month:
  "expiryValidYYMM s now \<longleftrightarrow>
     (case expiry_month s of
        None \<Rightarrow> False
      | Some (y, m) \<Rightarrow> now < month_start (12 * y + m) - 1)"
proof (cases "length s = 4")
  case True
  then have "ascii_digits s \<longleftrightarrow> ascii_digits (take 2 s) \<and> ascii_digits (drop 2 s)"
    by (metis append_take_drop_id ascii_digits_simps(3))
  with True show ?thesis
    by (auto simp: expiryValidYYMM_def expiry_month_def atoi2_eq Let_def
        time_Date_month_start split: if_splits)
qed (simp add: expiryValidYYMM_def expiry_month_def)

text \<open>
  C27. The expiry date in terms of the calendar: at any moment of month \<open>m\<close> of year \<open>y\<close> a card is
  accepted exactly when its YYMM names that month or a later one, but for the last nanosecond of
  its expiry month, when it already counts as expired.
\<close>

theorem expiry_calendar:
  assumes "expiry_month s = Some (ey, em)"
    and "1 \<le> m" "m \<le> 12" "time_Date y m \<le> now" "now < time_Date y (m + 1)"
  shows "expiryValidYYMM s now \<longleftrightarrow>
    (y < ey \<or> y = ey \<and> m \<le> em) \<and> now \<noteq> time_Date ey (em + 1) - 1"
proof -
  have em: "1 \<le> em" "em \<le> 12" using assms(1) by (auto simp: expiry_month_def Let_def split: if_splits)
  let ?k = "12 * y + m - 1" and ?e = "12 * ey + em - 1"
  have now: "month_start ?k \<le> now" "now < month_start (?k + 1)"
    using assms by (simp_all add: time_Date_month_start)
  have e: "time_Date ey (em + 1) = month_start (?e + 1)"
    using em by (simp add: time_Date_month_start)
  have valid: "expiryValidYYMM s now \<longleftrightarrow> now < month_start (?e + 1) - 1"
    using assms(1) by (simp add: expiryValid_month)
  have order: "(y < ey \<or> y = ey \<and> m \<le> em) \<longleftrightarrow> ?k \<le> ?e" using em assms(2,3) by auto
  show ?thesis
  proof (cases "?k \<le> ?e")
    case True
    then have "now < month_start (?e + 1)" using month_start_mono [of "?k + 1" "?e + 1"] now by simp
    with True show ?thesis unfolding valid order e by auto
  next
    case False
    then have "month_start (?e + 1) \<le> now" using month_start_mono [of "?e + 1" ?k] now by simp
    with False show ?thesis unfolding valid order by simp
  qed
qed

theorem expiry_calendar_witness:
  "expiryValidYYMM ''3012'' (time_Date 2030 12) \<and> \<not> expiryValidYYMM ''3011'' (time_Date 2030 12)"
proof -
  have "expiry_month ''3012'' = Some (2030, 12)" "expiry_month ''3011'' = Some (2030, 11)"
    by (simp_all add: expiry_month_def dec_value_def digit_val_def is_digit_byte_def Let_def)
  note e = expiry_calendar [OF this(1), of 12 2030 "time_Date 2030 12"]
    expiry_calendar [OF this(2), of 12 2030 "time_Date 2030 12"]
  have "time_Date 2030 12 < time_Date 2030 13" "time_Date 2030 12 \<noteq> time_Date 2030 13 - 1"
    by code_simp+
  with e show ?thesis by simp
qed

section \<open>The static checks\<close>

definition ValidateCardBasic :: "time \<Rightarrow> Card option \<Rightarrow> string \<times> string" where
  "ValidateCardBasic now c =
     (case c of
        None \<Rightarrow> (RespInvalidCardNumber, ''card not found'')
      | Some c \<Rightarrow>
          if c_Status c \<noteq> ''ACTIVE'' then (RespBlockedCard, ''card is not active'')
          else if \<not> expiryValidYYMM (c_ExpiryDate c) now then (RespExpiredCard, ''card expired'')
          else ([], []))"

lemma ValidateCardBasic_pass:
  "fst (ValidateCardBasic now (Some c)) = [] \<longleftrightarrow>
     c_Status c = ''ACTIVE'' \<and> expiryValidYYMM (c_ExpiryDate c) now"
  by (simp add: ValidateCardBasic_def resp_codes)

end
