(* ===== verification/Scheme_Bin.thy ===== *)
theory Scheme_Bin
  imports Util
begin

text \<open>
  internal/scheme/bin.go: the table of BIN prefixes and the functions that read a card number
  with it. The lemmas show that the prefix table is the numeric ranges its comments name
  (Mastercard 51-55 and 2221-2720) and what the length checks add to it.
\<close>

section \<open>Schemes and the table\<close>

type_synonym CardScheme = string

definition SchemeMastercard :: CardScheme where "SchemeMastercard = ''MASTERCARD''"
definition SchemeVisa :: CardScheme where "SchemeVisa = ''VISA''"
definition SchemeTroy :: CardScheme where "SchemeTroy = ''TROY''"
definition SchemeUnknown :: CardScheme where "SchemeUnknown = ''UNKNOWN''"

lemmas scheme_defs = SchemeMastercard_def SchemeVisa_def SchemeTroy_def SchemeUnknown_def

record BINRange =
  br_Prefix :: string
  br_MinLength :: nat
  br_MaxLength :: nat
  br_Scheme :: CardScheme

definition bin :: "string \<Rightarrow> nat \<Rightarrow> nat \<Rightarrow> CardScheme \<Rightarrow> BINRange" where
  "bin p lo hi sch = \<lparr>br_Prefix = p, br_MinLength = lo, br_MaxLength = hi, br_Scheme = sch\<rparr>"

definition binRanges :: "BINRange list" where
  "binRanges =
     [bin ''9792'' 16 16 SchemeTroy,
      bin ''51'' 16 16 SchemeMastercard,
      bin ''52'' 16 16 SchemeMastercard,
      bin ''53'' 16 16 SchemeMastercard,
      bin ''54'' 16 16 SchemeMastercard,
      bin ''55'' 16 16 SchemeMastercard,
      bin ''2221'' 16 16 SchemeMastercard,
      bin ''2222'' 16 16 SchemeMastercard,
      bin ''2223'' 16 16 SchemeMastercard,
      bin ''2224'' 16 16 SchemeMastercard,
      bin ''2225'' 16 16 SchemeMastercard,
      bin ''2226'' 16 16 SchemeMastercard,
      bin ''2227'' 16 16 SchemeMastercard,
      bin ''2228'' 16 16 SchemeMastercard,
      bin ''2229'' 16 16 SchemeMastercard,
      bin ''223'' 16 16 SchemeMastercard,
      bin ''224'' 16 16 SchemeMastercard,
      bin ''225'' 16 16 SchemeMastercard,
      bin ''226'' 16 16 SchemeMastercard,
      bin ''227'' 16 16 SchemeMastercard,
      bin ''228'' 16 16 SchemeMastercard,
      bin ''229'' 16 16 SchemeMastercard,
      bin ''23'' 16 16 SchemeMastercard,
      bin ''24'' 16 16 SchemeMastercard,
      bin ''25'' 16 16 SchemeMastercard,
      bin ''26'' 16 16 SchemeMastercard,
      bin ''270'' 16 16 SchemeMastercard,
      bin ''271'' 16 16 SchemeMastercard,
      bin ''2720'' 16 16 SchemeMastercard,
      bin ''4'' 13 19 SchemeVisa]"

section \<open>Operations\<close>

text \<open>The loop over the table: the first entry whose prefix and length both match.\<close>

fun detect_loop :: "BINRange list \<Rightarrow> string \<Rightarrow> CardScheme" where
  "detect_loop [] pan = SchemeUnknown"
| "detect_loop (br # brs) pan =
    (if has_prefix pan (br_Prefix br) then
       (if br_MinLength br \<le> length pan \<and> length pan \<le> br_MaxLength br
        then br_Scheme br else detect_loop brs pan)
     else detect_loop brs pan)"

definition DetectScheme :: "string \<Rightarrow> CardScheme" where
  "DetectScheme pan =
     (let pan = trim_space pan
      in if length pan < 13 then SchemeUnknown else detect_loop binRanges pan)"

definition GetBIN :: "string \<Rightarrow> string" where
  "GetBIN pan = (let pan = trim_space pan in if length pan < 6 then [] else take 6 pan)"

definition GetBIN8 :: "string \<Rightarrow> string" where
  "GetBIN8 pan = (let pan = trim_space pan in if length pan < 8 then [] else take 8 pan)"

definition IsValidPANLength :: "string \<Rightarrow> bool" where
  "IsValidPANLength pan =
     (let scheme = DetectScheme pan; l = length (trim_space pan)
      in if scheme = SchemeMastercard \<or> scheme = SchemeTroy then l = 16
         else if scheme = SchemeVisa then 13 \<le> l \<and> l \<le> 19
         else 13 \<le> l \<and> l \<le> 19)"

section \<open>The table as numeric ranges\<close>

definition scheme_spec :: "string \<Rightarrow> CardScheme" where
  "scheme_spec pan =
     (if dec_value (take 4 pan) = 9792 \<and> length pan = 16 then SchemeTroy
      else if (dec_value (take 2 pan) \<in> {51..55} \<or> dec_value (take 4 pan) \<in> {2221..2720})
              \<and> length pan = 16
      then SchemeMastercard
      else if dec_value (take 1 pan) = 4 \<and> 13 \<le> length pan \<and> length pan \<le> 19 then SchemeVisa
      else SchemeUnknown)"

lemma digit_chars:
  assumes "is_digit_byte c"
  shows "c = CHR ''0'' \<longleftrightarrow> digit_val c = 0" "c = CHR ''1'' \<longleftrightarrow> digit_val c = 1"
    "c = CHR ''2'' \<longleftrightarrow> digit_val c = 2" "c = CHR ''3'' \<longleftrightarrow> digit_val c = 3"
    "c = CHR ''4'' \<longleftrightarrow> digit_val c = 4" "c = CHR ''5'' \<longleftrightarrow> digit_val c = 5"
    "c = CHR ''6'' \<longleftrightarrow> digit_val c = 6" "c = CHR ''7'' \<longleftrightarrow> digit_val c = 7"
    "c = CHR ''8'' \<longleftrightarrow> digit_val c = 8" "c = CHR ''9'' \<longleftrightarrow> digit_val c = 9"
proof -
  have "c = d \<longleftrightarrow> digit_val c = of_char d - 48" if "48 \<le> (of_char d :: nat)" for d
  proof -
    have "c = d \<longleftrightarrow> (of_char c :: nat) = of_char d" by simp
    also have "\<dots> \<longleftrightarrow> digit_val c = of_char d - 48"
      using assms that unfolding is_digit_byte_def digit_val_def by arith
    finally show ?thesis .
  qed
  then show "c = CHR ''0'' \<longleftrightarrow> digit_val c = 0" "c = CHR ''1'' \<longleftrightarrow> digit_val c = 1"
    "c = CHR ''2'' \<longleftrightarrow> digit_val c = 2" "c = CHR ''3'' \<longleftrightarrow> digit_val c = 3"
    "c = CHR ''4'' \<longleftrightarrow> digit_val c = 4" "c = CHR ''5'' \<longleftrightarrow> digit_val c = 5"
    "c = CHR ''6'' \<longleftrightarrow> digit_val c = 6" "c = CHR ''7'' \<longleftrightarrow> digit_val c = 7"
    "c = CHR ''8'' \<longleftrightarrow> digit_val c = 8" "c = CHR ''9'' \<longleftrightarrow> digit_val c = 9"
    by simp_all
qed

lemma range_2221_2720:
  fixes a b c d :: nat
  assumes "a \<le> 9" "b \<le> 9" "c \<le> 9" "d \<le> 9"
  shows "(2221 \<le> a * 1000 + (b * 100 + (c * 10 + d)) \<and>
      a * 1000 + (b * 100 + (c * 10 + d)) \<le> 2720) \<longleftrightarrow>
    a = 2 \<and> (b = 2 \<and> (c = 2 \<and> 1 \<le> d \<or> 3 \<le> c) \<or> (3 \<le> b \<and> b \<le> 6)
      \<or> b = 7 \<and> (c \<le> 1 \<or> c = 2 \<and> d = 0))"
  (is "?n \<longleftrightarrow> ?p")
proof
  assume ?p with assms show ?n by auto
next
  assume n: ?n
  then have "a = 2" using assms by linarith
  with n assms have b: "2 \<le> b" "b \<le> 7" by linarith+
  from b consider "b = 2" | "b = 7" | "3 \<le> b" "b \<le> 6" by linarith
  then show ?p
  proof cases
    case 1
    with n \<open>a = 2\<close> have "21 \<le> c * 10 + d" by simp
    then have "c = 2 \<and> 1 \<le> d \<or> 3 \<le> c" using assms by (cases "c = 2") auto
    with 1 \<open>a = 2\<close> show ?thesis by simp
  next
    case 2
    with n \<open>a = 2\<close> have "c * 10 + d \<le> 20" by simp
    then have "c \<le> 1 \<or> c = 2 \<and> d = 0" by (cases "c = 2") auto
    with 2 \<open>a = 2\<close> show ?thesis by simp
  next
    case 3
    with \<open>a = 2\<close> show ?thesis by simp
  qed
qed

lemma range_51_55:
  fixes a b :: nat
  assumes "b \<le> 9"
  shows "51 \<le> a * 10 + b \<and> a * 10 + b \<le> 55 \<longleftrightarrow> a = 5 \<and> 1 \<le> b \<and> b \<le> 5"
proof
  assume r: "51 \<le> a * 10 + b \<and> a * 10 + b \<le> 55"
  with assms have "a = 5" by linarith
  with r show "a = 5 \<and> 1 \<le> b \<and> b \<le> 5" by simp
qed simp

text \<open>Entries that share lengths and scheme act as one block of prefixes.\<close>

lemma detect_block:
  "detect_loop (map (\<lambda>p. bin p lo hi sch) ps @ brs) pan =
     (if (\<exists>p \<in> set ps. has_prefix pan p) \<and> lo \<le> length pan \<and> length pan \<le> hi
      then sch else detect_loop brs pan)"
  by (induction ps) (auto simp: bin_def)

definition mastercard_prefixes :: "string list" where
  "mastercard_prefixes =
     [''51'', ''52'', ''53'', ''54'', ''55'', ''2221'', ''2222'', ''2223'',
      ''2224'', ''2225'', ''2226'', ''2227'', ''2228'', ''2229'', ''223'', ''224'',
      ''225'', ''226'', ''227'', ''228'', ''229'', ''23'', ''24'', ''25'',
      ''26'', ''270'', ''271'', ''2720'']"

lemma binRanges_blocks:
  "binRanges = map (\<lambda>p. bin p 16 16 SchemeTroy) [''9792'']
     @ map (\<lambda>p. bin p 16 16 SchemeMastercard) mastercard_prefixes
     @ map (\<lambda>p. bin p 13 19 SchemeVisa) [''4''] @ []"
  by (simp add: binRanges_def mastercard_prefixes_def)

lemma detect_prefixes:
  "detect_loop binRanges pan =
     (if has_prefix pan ''9792'' \<and> length pan = 16 then SchemeTroy
      else if (\<exists>p \<in> set mastercard_prefixes. has_prefix pan p) \<and> length pan = 16 then SchemeMastercard
      else if has_prefix pan ''4'' \<and> 13 \<le> length pan \<and> length pan \<le> 19 then SchemeVisa
      else SchemeUnknown)"
  by (simp only: binRanges_blocks detect_block detect_loop.simps) auto

lemma mastercard_ranges:
  assumes "ascii_digits (a # b # c # d # s)"
  shows "(\<exists>p \<in> set mastercard_prefixes. has_prefix (a # b # c # d # s) p) \<longleftrightarrow>
    dec_value [a, b] \<in> {51..55} \<or> dec_value [a, b, c, d] \<in> {2221..2720}"
proof -
  note dig = digit_chars [of a] digit_chars [of b] digit_chars [of c] digit_chars [of d]
  have v: "digit_val a \<le> 9" "digit_val b \<le> 9" "digit_val c \<le> 9" "digit_val d \<le> 9"
    using assms by simp_all
  have l: "(\<exists>p \<in> set mastercard_prefixes. has_prefix (a # b # c # d # s) p) \<longleftrightarrow>
      digit_val a = 5 \<and> digit_val b \<in> {1, 2, 3, 4, 5} \<or>
      digit_val a = 2 \<and> (digit_val b = 2 \<and> (digit_val c = 2 \<and> digit_val d \<in> {1, 2, 3, 4, 5, 6, 7, 8, 9}
          \<or> digit_val c \<in> {3, 4, 5, 6, 7, 8, 9})
        \<or> digit_val b \<in> {3, 4, 5, 6}
        \<or> digit_val b = 7 \<and> (digit_val c \<in> {0, 1} \<or> digit_val c = 2 \<and> digit_val d = 0))"
    using assms
    by (cases "digit_val a = 2"; cases "digit_val a = 5"; cases "digit_val b = 2"; cases "digit_val b = 7";
        cases "digit_val c = 2")
      (simp_all add: mastercard_prefixes_def has_prefix_def dig)
  have two: "dec_value [a, b] \<in> {51..55} \<longleftrightarrow> digit_val a = 5 \<and> 1 \<le> digit_val b \<and> digit_val b \<le> 5"
    using range_51_55 [OF v(2)] by (simp add: dec_value_Cons)
  have four: "dec_value [a, b, c, d] \<in> {2221..2720} \<longleftrightarrow>
      digit_val a = 2 \<and> (digit_val b = 2 \<and> (digit_val c = 2 \<and> 1 \<le> digit_val d \<or> 3 \<le> digit_val c)
        \<or> (3 \<le> digit_val b \<and> digit_val b \<le> 6)
        \<or> digit_val b = 7 \<and> (digit_val c \<le> 1 \<or> digit_val c = 2 \<and> digit_val d = 0))"
    using range_2221_2720 [OF v] by (simp add: dec_value_Cons)
  have sets: "x \<in> {1, 2, 3, 4, 5} \<longleftrightarrow> 1 \<le> x \<and> x \<le> 5" "x \<in> {3, 4, 5, 6} \<longleftrightarrow> 3 \<le> x \<and> x \<le> 6"
    "x \<in> {0, 1} \<longleftrightarrow> x \<le> 1" for x :: nat
    by (simp_all, arith+)
  have upto9: "x \<in> {1, 2, 3, 4, 5, 6, 7, 8, 9} \<longleftrightarrow> 1 \<le> x" "x \<in> {3, 4, 5, 6, 7, 8, 9} \<longleftrightarrow> 3 \<le> x"
    if "x \<le> 9" for x :: nat
    using that by (simp_all, arith+)
  show ?thesis unfolding l two four sets upto9 [OF v(3)] upto9 [OF v(4)] ..
qed

lemma four_digits:
  fixes a b c d :: nat
  assumes "a \<le> 9" "b \<le> 9" "c \<le> 9" "d \<le> 9" "a' \<le> 9" "b' \<le> 9" "c' \<le> 9" "d' \<le> 9"
  shows "a * 1000 + (b * 100 + (c * 10 + d)) = a' * 1000 + (b' * 100 + (c' * 10 + d')) \<longleftrightarrow>
    a = a' \<and> b = b' \<and> c = c' \<and> d = d'"
proof
  assume e: "a * 1000 + (b * 100 + (c * 10 + d)) = a' * 1000 + (b' * 100 + (c' * 10 + d'))"
  then have "a = a'" using assms by linarith
  moreover from this e assms have "b = b'" by linarith
  moreover from calculation e assms have "c = c'" by linarith
  ultimately show "a = a' \<and> b = b' \<and> c = c' \<and> d = d'" using e by simp
qed simp

lemma detect_ranges:
  assumes "ascii_digits pan" "13 \<le> length pan"
  shows "detect_loop binRanges pan = scheme_spec pan"
proof -
  obtain a b c d s where pan: "pan = a # b # c # d # s"
    using assms(2) by (auto simp: Suc_le_length_iff numeral_eq_Suc)
  have troy: "has_prefix pan ''9792'' \<longleftrightarrow> dec_value (take 4 pan) = 9792"
  proof -
    have "digit_val a \<le> 9" "digit_val b \<le> 9" "digit_val c \<le> 9" "digit_val d \<le> 9"
      using assms by (simp_all add: pan)
    then show ?thesis
      using assms four_digits [of "digit_val a" "digit_val b" "digit_val c" "digit_val d" 9 7 9 2]
      by (simp add: pan has_prefix_def dec_value_Cons digit_chars)
  qed
  have visa: "has_prefix pan ''4'' \<longleftrightarrow> dec_value (take 1 pan) = 4"
    using assms digit_chars [of a] by (simp add: pan has_prefix_def dec_value_Cons)
  have mc: "(\<exists>p \<in> set mastercard_prefixes. has_prefix pan p) \<longleftrightarrow>
      dec_value (take 2 pan) \<in> {51..55} \<or> dec_value (take 4 pan) \<in> {2221..2720}"
    using mastercard_ranges [of a b c d s] assms(1) unfolding pan by simp
  show ?thesis unfolding detect_prefixes scheme_spec_def troy visa mc ..
qed

section \<open>The functions on whole card numbers\<close>

lemma DetectScheme_eq:
  assumes "ascii_digits (trim_space pan)"
  shows "DetectScheme pan = scheme_spec (trim_space pan)"
proof (cases "length (trim_space pan) < 13")
  case True
  then show ?thesis by (simp add: DetectScheme_def scheme_spec_def)
next
  case False
  with assms show ?thesis by (simp add: DetectScheme_def detect_ranges)
qed

text \<open>A scheme with fixed length is only ever detected at that length.\<close>

lemma DetectScheme_length:
  "DetectScheme pan = SchemeMastercard \<or> DetectScheme pan = SchemeTroy \<Longrightarrow>
   length (trim_space pan) = 16"
  by (auto simp: DetectScheme_def detect_prefixes scheme_defs Let_def split: if_splits)

lemma IsValidPANLength_eq:
  "IsValidPANLength pan \<longleftrightarrow> 13 \<le> length (trim_space pan) \<and> length (trim_space pan) \<le> 19"
  using DetectScheme_length [of pan] by (auto simp: IsValidPANLength_def Let_def)

lemma GetBIN_prefix:
  "GetBIN pan = take 6 (trim_space pan) \<or> GetBIN pan = []"
  "6 \<le> length (trim_space pan) \<Longrightarrow> length (GetBIN pan) = 6"
  "8 \<le> length (trim_space pan) \<Longrightarrow> take 6 (GetBIN8 pan) = GetBIN pan"
  by (auto simp: GetBIN_def GetBIN8_def Let_def)

text \<open>
  C26. The table of prefixes and the loop over it compute the published number ranges: a card
  number of digits is Mastercard, Visa or Troy exactly when \<open>scheme_spec\<close> says so by comparing its
  leading digits as numbers, and a Mastercard or Troy number always has 16 digits.
\<close>

theorem scheme_ranges:
  assumes "ascii_digits (trim_space pan)"
  shows "DetectScheme pan = scheme_spec (trim_space pan) \<and>
    (DetectScheme pan \<in> {SchemeMastercard, SchemeTroy} \<longrightarrow> length (trim_space pan) = 16)"
  using DetectScheme_eq [OF assms] DetectScheme_length [of pan] by auto

theorem scheme_ranges_witness: "DetectScheme ''2720993333333339'' = SchemeMastercard"
proof -
  have d: "ascii_digits ''2720993333333339''" by (simp add: is_digit_byte_def)
  have "scheme_spec ''2720993333333339'' = SchemeMastercard"
    by (simp add: scheme_spec_def dec_value_def digit_val_def scheme_defs)
  with scheme_ranges [of "''2720993333333339''"] d show ?thesis by (simp add: trim_space_digits)
qed

end
