(* ===== verification/Sql.thy ===== *)
theory Sql
  imports Store "HOL-Library.Multiset"
begin

text \<open>
  What the SQL statements of internal/store/postgres have in common: a table is the list of its
  rows, a statement is a function on it that answers with a result or an error and runs
  atomically, and \<open>exec_stmt\<close> sends one to the server under the environment of the call.
\<close>

section \<open>Running a statement\<close>

definition exec_stmt :: "query_env \<Rightarrow> ('t \<Rightarrow> (go_error + 'r) \<times> 't) \<Rightarrow> 't \<Rightarrow> (go_error + 'r) \<times> 't" where
  "exec_stmt q stmt t =
     (case q_fault q of
        Done \<Rightarrow> stmt t
      | FailedBefore e \<Rightarrow> (Inl e, t)
      | LostReply e \<Rightarrow> (Inl e, snd (stmt t)))"

lemma exec_stmt_done [simp]: "q_fault q = Done \<Longrightarrow> exec_stmt q stmt t = stmt t"
  by (simp add: exec_stmt_def)

lemma exec_stmt_Inr:
  "exec_stmt q stmt t = (Inr r, t') \<longleftrightarrow> q_fault q = Done \<and> stmt t = (Inr r, t')"
  by (simp add: exec_stmt_def split: fault.splits)

lemma exec_stmt_Inl:
  "exec_stmt q stmt t = (Inl e, t') \<Longrightarrow> t' = t \<or> t' = snd (stmt t)"
  by (auto simp: exec_stmt_def split: fault.splits)

section \<open>Updates\<close>

text \<open>\<open>UPDATE \<dots> SET \<dots> WHERE \<dots>\<close>: the table with the matching rows rewritten, and their number.\<close>

definition update_where :: "('r \<Rightarrow> bool) \<Rightarrow> ('r \<Rightarrow> 'r) \<Rightarrow> 'r list \<Rightarrow> 'r list" where
  "update_where P f t = map (\<lambda>r. if P r then f r else r) t"

definition rows_affected :: "('r \<Rightarrow> bool) \<Rightarrow> 'r list \<Rightarrow> nat" where
  "rows_affected P t = length (filter P t)"

definition err_unique :: go_error where
  "err_unique = Errorf ''duplicate key value violates unique constraint''"

definition err_bigint :: go_error where
  "err_bigint = Errorf ''bigint out of range''"

lemma rows_affected_0: "rows_affected P t = 0 \<Longrightarrow> update_where P f t = t"
  by (auto simp: rows_affected_def update_where_def filter_empty_conv intro: map_idI)

lemma length_update_where [simp]: "length (update_where P f t) = length t"
  by (simp add: update_where_def)

section \<open>Pages\<close>

text \<open>The clamping of \<open>LIMIT\<close> and \<open>OFFSET\<close> that two of the three list methods start with.\<close>

definition clamp_limit :: "int \<Rightarrow> int" where
  "clamp_limit limit = (let l = (if limit \<le> 0 then 50 else limit) in if l > 500 then 500 else l)"

definition clamp_offset :: "int \<Rightarrow> int" where
  "clamp_offset off = (if off < 0 then 0 else off)"

text \<open>
  \<open>ORDER BY created_at DESC LIMIT \<dots> OFFSET \<dots>\<close>. Rows with the same timestamp keep their table
  order here; SQL leaves their order open, and no lemma depends on it.
\<close>

definition page_newest :: "('r \<Rightarrow> time) \<Rightarrow> int \<Rightarrow> int \<Rightarrow> 'r list \<Rightarrow> 'r list" where
  "page_newest created limit off t =
     take (nat limit) (drop (nat off) (sort_key (\<lambda>r. - created r) t))"

lemma clamp_bounds: "1 \<le> clamp_limit l" "clamp_limit l \<le> 500" "0 \<le> clamp_offset off"
  by (simp_all add: clamp_limit_def clamp_offset_def Let_def)

lemma page_newest_length: "0 \<le> limit \<Longrightarrow> int (length (page_newest created limit off t)) \<le> limit"
  by (simp add: page_newest_def)

lemma page_newest_subset: "set (page_newest created limit off t) \<subseteq> set t"
  unfolding page_newest_def by (metis set_drop_subset set_sort set_take_subset subset_trans)

lemma page_newest_sorted:
  "sorted_wrt (\<lambda>r r'. created r' \<le> created r) (page_newest created limit off t)"
proof -
  have "sorted (map (\<lambda>r. - created r) (sort_key (\<lambda>r. - created r) t))" by simp
  then have "sorted_wrt (\<lambda>r r'. created r' \<le> created r) (sort_key (\<lambda>r. - created r) t)"
    by (simp only: sorted_map neg_le_iff_le)
  then show ?thesis unfolding page_newest_def by (intro sorted_wrt_take sorted_wrt_drop)
qed

lemma page_newest_all:
  "int (length t) \<le> limit \<Longrightarrow> mset (page_newest created limit 0 t) = mset t"
  by (simp add: page_newest_def)

end
