(* ===== verification/Card_Repo.thy ===== *)
theory Card_Repo
  imports Sql
begin

text \<open>
  internal/store/postgres/card.go: the card table and the SQL statements on it. A table is the
  list of its rows; a statement is a function on it that answers with rows or an error and runs
  atomically. The constraints of the schema the operations depend on are explicit: id and PAN are
  unique, and a balance is a BIGINT, so an addition that leaves the 64-bit range is an error and
  changes nothing. An id is compared as the text the server prints for it.

  Each Go method is a definition that runs its statement through \<open>exec_stmt\<close>, which applies the
  environment's fault, and then does what the method does with the reply. The last section
  shows that these methods meet the contract \<open>card_store\<close>.
\<close>

type_synonym cards = "Card list"

section \<open>Statements\<close>

definition row_by_id :: "string \<Rightarrow> cards \<Rightarrow> Card option" where
  "row_by_id i t = find (\<lambda>c. c_ID c = i) t"

definition row_by_pan :: "string \<Rightarrow> cards \<Rightarrow> Card option" where
  "row_by_pan pan t = find (\<lambda>c. c_PAN c = pan) t"

definition sql_select_by_id :: "string \<Rightarrow> cards \<Rightarrow> (go_error + Card option) \<times> cards" where
  "sql_select_by_id i t = (Inr (row_by_id i t), t)"

definition sql_select_by_pan :: "string \<Rightarrow> cards \<Rightarrow> (go_error + Card option) \<times> cards" where
  "sql_select_by_pan pan t = (Inr (row_by_pan pan t), t)"

definition sql_insert :: "query_env \<Rightarrow> Card \<Rightarrow> cards \<Rightarrow> (go_error + string \<times> time \<times> time) \<times> cards" where
  "sql_insert q c t =
     (if row_by_pan (c_PAN c) t \<noteq> None \<or> row_by_id (q_id q) t \<noteq> None then (Inl err_unique, t)
      else (Inr (q_id q, q_now q, q_now q),
            t @ [c\<lparr>c_ID := q_id q, c_CreatedAt := q_now q, c_UpdatedAt := q_now q\<rparr>]))"

definition sql_update ::
  "(Card \<Rightarrow> bool) \<Rightarrow> (Card \<Rightarrow> Card) \<Rightarrow> cards \<Rightarrow> (go_error + nat) \<times> cards" where
  "sql_update P f t =
     (if list_ex (\<lambda>c. P c \<and> \<not> in_int64 (c_AvailableBalance (f c))) t then (Inl err_bigint, t)
      else (Inr (rows_affected P t), update_where P f t))"

text \<open>
  The statement of \<open>AuthorizeAndDebit\<close>: the looked-up row is the one before the update (both
  parts of the WITH see the same snapshot), and the two balances are null unless the row was
  debited.
\<close>

definition sql_authorize ::
  "query_env \<Rightarrow> string \<Rightarrow> int64 \<Rightarrow> cards \<Rightarrow>
   (go_error + (Card \<times> int64 option \<times> int64 option) option) \<times> cards" where
  "sql_authorize q pan amount t =
     (case row_by_pan pan t of
        None \<Rightarrow> (Inr None, t)
      | Some cl \<Rightarrow>
          let P = (\<lambda>c. c_ID c = c_ID cl \<and> amount \<le> c_AvailableBalance c
                        \<and> c_Status c = ''ACTIVE'');
              f = (\<lambda>c. c\<lparr>c_AvailableBalance := c_AvailableBalance c - amount,
                         c_UpdatedAt := q_now q\<rparr>)
          in (case find P t of
                None \<Rightarrow> (Inr (Some (cl, None, None)), t)
              | Some d \<Rightarrow>
                  (Inr (Some (cl, Some (c_AvailableBalance (f d) + amount),
                                  Some (c_AvailableBalance (f d)))),
                   update_where P f t)))"

section \<open>The repository's methods\<close>

definition GetCardByID :: "query_env \<Rightarrow> string \<Rightarrow> cards \<Rightarrow> (go_error + Card option) \<times> cards" where
  "GetCardByID q i t =
     (case exec_stmt q (sql_select_by_id i) t of
        (Inl e, t') \<Rightarrow> (Inl (Wrapf ''select card by id'' e), t')
      | (Inr x, t') \<Rightarrow> (Inr x, t'))"

definition CreateCard :: "query_env \<Rightarrow> Card option \<Rightarrow> cards \<Rightarrow> (go_error + Card) \<times> cards" where
  "CreateCard q c t =
     (case c of
        None \<Rightarrow> (Inl (Errorf ''card is nil''), t)
      | Some c \<Rightarrow>
          (case exec_stmt q (sql_insert q c) t of
             (Inl e, t') \<Rightarrow> (Inl (Wrapf ''insert card'' e), t')
           | (Inr (i, cr, up), t') \<Rightarrow>
               (Inr (c\<lparr>c_ID := i, c_CreatedAt := cr, c_UpdatedAt := up\<rparr>), t')))"

definition GetCardByPAN :: "query_env \<Rightarrow> string \<Rightarrow> cards \<Rightarrow> (go_error + Card option) \<times> cards" where
  "GetCardByPAN q pan t =
     (case exec_stmt q (sql_select_by_pan pan) t of
        (Inl e, t') \<Rightarrow> (Inl (Wrapf ''select card'' e), t')
      | (Inr x, t') \<Rightarrow> (Inr x, t'))"

definition sql_list :: "int \<Rightarrow> int \<Rightarrow> cards \<Rightarrow> (go_error + Card list) \<times> cards" where
  "sql_list limit off t =
     (Inr (page_newest c_CreatedAt limit off (filter (\<lambda>c. c_Status c \<noteq> ''DELETED'') t)), t)"

definition ListCards :: "query_env \<Rightarrow> int \<Rightarrow> int \<Rightarrow> cards \<Rightarrow> (go_error + Card list) \<times> cards" where
  "ListCards q limit off t =
     (case exec_stmt q (sql_list (clamp_limit limit) (clamp_offset off)) t of
        (Inl e, t') \<Rightarrow> (Inl (Wrapf ''list cards'' e), t')
      | (Inr cs, t') \<Rightarrow> (Inr cs, t'))"

definition UpdateCard :: "query_env \<Rightarrow> Card \<Rightarrow> cards \<Rightarrow> (go_error + Card) \<times> cards" where
  "UpdateCard q c t =
     (case exec_stmt q (sql_update (\<lambda>r. c_ID r = c_ID c)
              (\<lambda>r. r\<lparr>c_ExpiryDate := c_ExpiryDate c, c_Scheme := c_Scheme c,
                     c_CurrencyCode := c_CurrencyCode c, c_CreditLimit := c_CreditLimit c,
                     c_AvailableBalance := c_AvailableBalance c, c_Status := c_Status c,
                     c_UpdatedAt := q_now q\<rparr>)) t of
        (Inl e, t') \<Rightarrow> (Inl (Wrapf ''update card'' e), t')
      | (Inr n, t') \<Rightarrow>
          if n = 0 then (Inl (Errorf ''card not found''), t')
          else (Inr (c\<lparr>c_UpdatedAt := q_now q\<rparr>), t'))"

definition SoftDeleteCard :: "query_env \<Rightarrow> string \<Rightarrow> cards \<Rightarrow> (go_error + unit) \<times> cards" where
  "SoftDeleteCard q i t =
     (case exec_stmt q (sql_update (\<lambda>r. c_ID r = i)
              (\<lambda>r. r\<lparr>c_Status := ''DELETED'', c_UpdatedAt := q_now q\<rparr>)) t of
        (Inl e, t') \<Rightarrow> (Inl (Wrapf ''soft delete card'' e), t')
      | (Inr n, t') \<Rightarrow>
          if n \<noteq> 1 then (Inl (Errorf ''card not found''), t') else (Inr (), t'))"

definition CreditBalance :: "query_env \<Rightarrow> string \<Rightarrow> int64 \<Rightarrow> cards \<Rightarrow> (go_error + unit) \<times> cards" where
  "CreditBalance q i amount t =
     (if amount \<le> 0 then (Inl (Errorf ''amount must be > 0''), t)
      else case exec_stmt q (sql_update (\<lambda>r. c_ID r = i)
              (\<lambda>r. r\<lparr>c_AvailableBalance := c_AvailableBalance r + amount,
                     c_UpdatedAt := q_now q\<rparr>)) t of
        (Inl e, t') \<Rightarrow> (Inl (Wrapf ''credit balance'' e), t')
      | (Inr n, t') \<Rightarrow>
          if n \<noteq> 1 then (Inl (Errorf ''credit balance: card not found''), t') else (Inr (), t'))"

definition UpdateCardBalance :: "query_env \<Rightarrow> string \<Rightarrow> int64 \<Rightarrow> cards \<Rightarrow> (go_error + unit) \<times> cards" where
  "UpdateCardBalance q i newBalance t =
     (case exec_stmt q (sql_update (\<lambda>r. c_ID r = i)
              (\<lambda>r. r\<lparr>c_AvailableBalance := newBalance, c_UpdatedAt := q_now q\<rparr>)) t of
        (Inl e, t') \<Rightarrow> (Inl (Wrapf ''update balance'' e), t')
      | (Inr n, t') \<Rightarrow>
          if n \<noteq> 1 then (Inl (Errorf ''update balance: expected 1 row affected''), t')
          else (Inr (), t'))"

definition DebitIfSufficient ::
  "query_env \<Rightarrow> string \<Rightarrow> int64 \<Rightarrow> cards \<Rightarrow> (go_error + int64 \<times> int64 \<times> bool) \<times> cards" where
  "DebitIfSufficient q i amount t =
     (if amount \<le> 0 then (Inl (Errorf ''amount must be > 0''), t)
      else
        let P = (\<lambda>r. c_ID r = i \<and> amount \<le> c_AvailableBalance r);
            f = (\<lambda>r. r\<lparr>c_AvailableBalance := c_AvailableBalance r - amount,
                       c_UpdatedAt := q_now q\<rparr>)
        in case exec_stmt q (\<lambda>t. (case find P t of
                                    None \<Rightarrow> (Inr None, t)
                                  | Some r \<Rightarrow> (Inr (Some (c_AvailableBalance (f r) + amount,
                                                         c_AvailableBalance (f r))),
                                              update_where P f t))) t of
             (Inl e, t') \<Rightarrow> (Inl (Wrapf ''debit'' e), t')
           | (Inr None, t') \<Rightarrow> (Inr (0, 0, False), t')
           | (Inr (Some (before, after)), t') \<Rightarrow> (Inr (before, after, True), t'))"

text \<open>\<open>AuthorizeAndDebit\<close>: without a connection from the pool the statement is never sent.\<close>

definition AuthorizeAndDebit ::
  "query_env \<Rightarrow> string \<Rightarrow> int64 \<Rightarrow> cards \<Rightarrow> (go_error + AuthorizeDebitResult option) \<times> cards" where
  "AuthorizeAndDebit q pan amount t =
     (if amount \<le> 0 then (Inl (Errorf ''amount must be > 0''), t)
      else case q_acquire q of
        Some e \<Rightarrow> (Inl (Wrapf ''acquire conn'' e), t)
      | None \<Rightarrow>
         (case exec_stmt q (sql_authorize q pan amount) t of
            (Inl e, t') \<Rightarrow> (Inl (Wrapf ''authorize and debit'' e), t')
          | (Inr None, t') \<Rightarrow> (Inr None, t')
          | (Inr (Some (c, before, after)), t') \<Rightarrow>
              (Inr (Some (case (before, after) of
                  (Some b, Some a) \<Rightarrow>
                    \<lparr>r_Card = Some c, r_BalanceBefore = b, r_BalanceAfter = a, r_Debited = True\<rparr>
                | _ \<Rightarrow>
                    \<lparr>r_Card = Some c, r_BalanceBefore = 0, r_BalanceAfter = 0, r_Debited = False\<rparr>)),
               t')))"

text \<open>The repository as a value of the interface.\<close>

definition postgres_cards :: "cards CardStore" where
  "postgres_cards =
     \<lparr>cs_CreateCard = CreateCard, cs_GetCardByID = GetCardByID, cs_GetCardByPAN = GetCardByPAN,
      cs_CreditBalance = CreditBalance, cs_ListCards = ListCards, cs_UpdateCard = UpdateCard,
      cs_SoftDeleteCard = SoftDeleteCard, cs_UpdateCardBalance = UpdateCardBalance,
      cs_DebitIfSufficient = DebitIfSufficient, cs_AuthorizeAndDebit = AuthorizeAndDebit\<rparr>"

section \<open>The table invariant\<close>

definition table_ok :: "cards \<Rightarrow> bool" where
  "table_ok t \<longleftrightarrow> distinct (map c_ID t) \<and> distinct (map c_PAN t)
     \<and> (\<forall>c \<in> set t. in_int64 (c_AvailableBalance c))"

lemma row_by_panD: "row_by_pan pan t = Some c \<Longrightarrow> c \<in> set t \<and> c_PAN c = pan"
  by (auto simp: row_by_pan_def find_Some_iff)

lemma row_by_idD: "row_by_id i t = Some c \<Longrightarrow> c \<in> set t \<and> c_ID c = i"
  by (auto simp: row_by_id_def find_Some_iff)

lemma row_by_id_member:
  "distinct (map c_ID t) \<Longrightarrow> c \<in> set t \<Longrightarrow> row_by_id (c_ID c) t = Some c"
  by (induction t) (auto simp: row_by_id_def rev_image_eqI)

lemma row_by_pan_member:
  "distinct (map c_PAN t) \<Longrightarrow> c \<in> set t \<Longrightarrow> row_by_pan (c_PAN c) t = Some c"
  by (induction t) (auto simp: row_by_pan_def rev_image_eqI)

lemma row_by_id_iff:
  "table_ok t \<Longrightarrow> row_by_id i t = Some c \<longleftrightarrow> c \<in> set t \<and> c_ID c = i"
  using row_by_idD row_by_id_member by (metis table_ok_def)

lemma row_by_pan_iff:
  "table_ok t \<Longrightarrow> row_by_pan pan t = Some c \<longleftrightarrow> c \<in> set t \<and> c_PAN c = pan"
  using row_by_panD row_by_pan_member by (metis table_ok_def)

lemma same_id_same_row:
  "table_ok t \<Longrightarrow> c \<in> set t \<Longrightarrow> d \<in> set t \<Longrightarrow> c_ID c = c_ID d \<Longrightarrow> c = d"
  using row_by_id_iff [of t "c_ID d"] by (metis option.inject)

lemma row_by_pan_None: "row_by_pan pan t = None \<longleftrightarrow> pan \<notin> c_PAN ` set t"
  by (auto simp: row_by_pan_def find_None_iff)

lemma row_by_id_None: "row_by_id i t = None \<longleftrightarrow> i \<notin> c_ID ` set t"
  by (auto simp: row_by_id_def find_None_iff)

text \<open>An update that keeps the keys acts on each looked-up row.\<close>

lemma row_by_pan_update [table_simps]:
  "(\<And>c. c_PAN (f c) = c_PAN c) \<Longrightarrow>
   row_by_pan pan (update_where P f t) = map_option (\<lambda>c. if P c then f c else c) (row_by_pan pan t)"
  by (induction t) (auto simp: row_by_pan_def update_where_def)

lemma row_by_id_update [table_simps]:
  "(\<And>c. c_ID (f c) = c_ID c) \<Longrightarrow>
   row_by_id i (update_where P f t) = map_option (\<lambda>c. if P c then f c else c) (row_by_id i t)"
  by (induction t) (auto simp: row_by_id_def update_where_def)

lemma update_where_keys [table_simps]:
  assumes "\<And>c. c_ID (f c) = c_ID c" "\<And>c. c_PAN (f c) = c_PAN c"
  shows "map c_ID (update_where P f t) = map c_ID t" "map c_PAN (update_where P f t) = map c_PAN t"
  using assms by (simp_all add: update_where_def)

lemma table_ok_update:
  assumes "table_ok t" "\<And>c. c_ID (f c) = c_ID c" "\<And>c. c_PAN (f c) = c_PAN c"
    and "\<And>c. c \<in> set t \<Longrightarrow> P c \<Longrightarrow> in_int64 (c_AvailableBalance (f c))"
  shows "table_ok (update_where P f t)"
proof -
  have "\<forall>c \<in> set (update_where P f t). in_int64 (c_AvailableBalance c)"
    using assms(1,4) by (auto simp: table_ok_def update_where_def)
  with assms(1) show ?thesis
    by (simp only: table_ok_def update_where_keys [of f P t, OF assms(2,3)])
qed

lemma filter_id:
  "table_ok t \<Longrightarrow> c \<in> set t \<Longrightarrow> filter (\<lambda>r. c_ID r = c_ID c) t = [c]"
proof -
  assume t: "table_ok t" "c \<in> set t"
  have "distinct (map c_ID t) \<Longrightarrow> c \<in> set t \<Longrightarrow> filter (\<lambda>r. c_ID r = c_ID c) t = [c]" for t
    by (induction t) (auto simp: filter_empty_conv rev_image_eqI)
  with t show ?thesis by (simp add: table_ok_def)
qed

lemma find_id:
  assumes "table_ok t" "c \<in> set t"
  shows "find (\<lambda>r. c_ID r = c_ID c \<and> Q r) t = (if Q c then Some c else None)"
proof (cases "find (\<lambda>r. c_ID r = c_ID c \<and> Q r) t")
  case None
  with assms show ?thesis by (auto simp: find_None_iff)
next
  case (Some d)
  then have "d \<in> set t" "c_ID d = c_ID c" "Q d" by (auto simp: find_Some_iff)
  with assms same_id_same_row Some show ?thesis by metis
qed

lemma rows_affected_id:
  assumes "table_ok t"
  shows "rows_affected (\<lambda>r. c_ID r = i) t = (if row_by_id i t = None then 0 else 1)"
proof (cases "row_by_id i t")
  case None
  then show ?thesis by (auto simp: rows_affected_def row_by_id_None filter_empty_conv)
next
  case (Some c)
  with filter_id [OF assms, of c] row_by_idD [OF Some] show ?thesis
    by (simp add: rows_affected_def)
qed

section \<open>The money view of the table\<close>

definition balances :: "cards \<Rightarrow> ledger" where
  "balances t pan = map_option c_AvailableBalance (row_by_pan pan t)"

definition is_active :: "cards \<Rightarrow> string \<Rightarrow> bool" where
  "is_active t pan \<longleftrightarrow> (\<exists>c. row_by_pan pan t = Some c \<and> c_Status c = ''ACTIVE'')"

text \<open>Adding \<open>d\<close> to the row with the id of the card found under \<open>pan\<close> moves \<open>d\<close> on \<open>pan\<close>.\<close>

lemma balances_update_id:
  assumes "table_ok t" "row_by_pan pan t = Some c" "Q c"
  shows "balances (update_where (\<lambda>r. c_ID r = c_ID c \<and> Q r)
            (\<lambda>r. r\<lparr>c_AvailableBalance := c_AvailableBalance r + d, c_UpdatedAt := u\<rparr>) t)
          = move (balances t) pan d"
proof (rule ext)
  fix p
  have "c_ID c' \<noteq> c_ID c" if "row_by_pan p t = Some c'" "p \<noteq> pan" for c'
    using that assms same_id_same_row row_by_panD by metis
  then show "balances (update_where (\<lambda>r. c_ID r = c_ID c \<and> Q r)
        (\<lambda>r. r\<lparr>c_AvailableBalance := c_AvailableBalance r + d, c_UpdatedAt := u\<rparr>) t) p
      = move (balances t) pan d p"
    using assms by (cases "p = pan"; cases "row_by_pan p t")
      (auto simp: balances_def table_simps move_def)
qed

lemma is_active_update:
  "(\<And>c. c_PAN (f c) = c_PAN c) \<Longrightarrow> (\<And>c. c_Status (f c) = c_Status c) \<Longrightarrow>
   is_active (update_where P f t) = is_active t"
  by (rule ext, rename_tac p, case_tac "row_by_pan p t") (auto simp: is_active_def table_simps)

section \<open>What each method does to a well-formed table\<close>

lemma sql_authorize_found:
  assumes "table_ok t" "row_by_pan pan t = Some c"
  shows "sql_authorize q pan a t =
    (if a \<le> c_AvailableBalance c \<and> c_Status c = ''ACTIVE''
     then (Inr (Some (c, Some (c_AvailableBalance c), Some (c_AvailableBalance c - a))),
           update_where (\<lambda>r. c_ID r = c_ID c \<and> a \<le> c_AvailableBalance r \<and> c_Status r = ''ACTIVE'')
             (\<lambda>r. r\<lparr>c_AvailableBalance := c_AvailableBalance r - a, c_UpdatedAt := q_now q\<rparr>) t)
     else (Inr (Some (c, None, None)), t))"
  using assms find_id [OF assms(1), of c] row_by_panD [OF assms(2)]
  by (simp add: sql_authorize_def)

lemma sql_authorize_absent: "row_by_pan pan t = None \<Longrightarrow> sql_authorize q pan a t = (Inr None, t)"
  by (simp add: sql_authorize_def)

lemma sql_authorize_effect:
  assumes "table_ok t" "0 < a"
  shows "table_ok (snd (sql_authorize q pan a t)) \<and>
    is_active (snd (sql_authorize q pan a t)) = is_active t \<and>
    balances (snd (sql_authorize q pan a t)) =
      (if is_active t pan \<and> (\<exists>b. balances t pan = Some b \<and> a \<le> b)
       then move (balances t) pan (- a) else balances t)"
proof (cases "row_by_pan pan t")
  case None
  then show ?thesis
    using assms by (simp add: sql_authorize_absent balances_def)
next
  case (Some c)
  let ?P = "\<lambda>r. c_ID r = c_ID c \<and> a \<le> c_AvailableBalance r \<and> c_Status r = ''ACTIVE''"
  let ?f = "\<lambda>r. r\<lparr>c_AvailableBalance := c_AvailableBalance r - a, c_UpdatedAt := q_now q\<rparr>"
  have ok: "table_ok (update_where ?P ?f t)"
  proof (rule table_ok_update)
    fix r assume "r \<in> set t" "?P r"
    with assms show "in_int64 (c_AvailableBalance (?f r))"
      by (auto simp: table_ok_def in_int64_def int64_min_def)
  qed (use assms in auto)
  have act: "is_active (update_where ?P ?f t) = is_active t"
    by (rule is_active_update) auto
  have bal: "balances (update_where ?P ?f t) = move (balances t) pan (- a)"
    if "a \<le> c_AvailableBalance c" "c_Status c = ''ACTIVE''"
    using balances_update_id [OF assms(1) Some, where d = "- a" and u = "q_now q"
        and Q = "\<lambda>r. a \<le> c_AvailableBalance r \<and> c_Status r = ''ACTIVE''"] that
    by simp
  have "(is_active t pan \<and> (\<exists>b. balances t pan = Some b \<and> a \<le> b)) =
        (a \<le> c_AvailableBalance c \<and> c_Status c = ''ACTIVE'')"
    using Some by (auto simp: is_active_def balances_def)
  with ok act bal assms show ?thesis
    by (simp only: sql_authorize_found [OF assms(1) Some] split: if_split) auto
qed

text \<open>\<open>UPDATE \<dots> SET available_balance = available_balance + d WHERE id = \<dots>\<close>.\<close>

lemma credit_stmt_effect:
  fixes q d
  defines "stmt \<equiv> \<lambda>i. sql_update (\<lambda>r. c_ID r = i)
     (\<lambda>r. r\<lparr>c_AvailableBalance := c_AvailableBalance r + d, c_UpdatedAt := q_now q\<rparr>)"
  assumes "table_ok t" "row_by_pan pan t = Some c"
  shows "stmt (c_ID c) t =
      (if in_int64 (c_AvailableBalance c + d)
       then (Inr 1, update_where (\<lambda>r. c_ID r = c_ID c)
          (\<lambda>r. r\<lparr>c_AvailableBalance := c_AvailableBalance r + d, c_UpdatedAt := q_now q\<rparr>) t)
       else (Inl err_bigint, t))"
    and "is_active (snd (stmt (c_ID c) t)) = is_active t"
    and "table_ok (snd (stmt (c_ID c) t))"
    and "balances (snd (stmt (c_ID c) t)) =
      (if in_int64 (c_AvailableBalance c + d) then move (balances t) pan d else balances t)"
proof -
  let ?f = "\<lambda>r. r\<lparr>c_AvailableBalance := c_AvailableBalance r + d, c_UpdatedAt := q_now q\<rparr>"
  have c: "c \<in> set t" using row_by_panD [OF assms(3)] by simp
  have over: "list_ex (\<lambda>r. c_ID r = c_ID c \<and> \<not> in_int64 (c_AvailableBalance (?f r))) t
      \<longleftrightarrow> \<not> in_int64 (c_AvailableBalance c + d)"
    using c same_id_same_row [OF assms(2)] by (auto simp: list_ex_iff)
  have one: "rows_affected (\<lambda>r. c_ID r = c_ID c) t = 1"
    using rows_affected_id [OF assms(2)] row_by_id_iff [OF assms(2), of "c_ID c" c] c by simp
  show stmt: "stmt (c_ID c) t =
      (if in_int64 (c_AvailableBalance c + d)
       then (Inr 1, update_where (\<lambda>r. c_ID r = c_ID c) ?f t) else (Inl err_bigint, t))"
    unfolding stmt_def sql_update_def over using one by simp
  have "table_ok (update_where (\<lambda>r. c_ID r = c_ID c) ?f t)" if "in_int64 (c_AvailableBalance c + d)"
    using assms(2) that same_id_same_row [OF assms(2)] c
    by (intro table_ok_update) auto
  then show "table_ok (snd (stmt (c_ID c) t))" using stmt assms(2) by simp
  show "is_active (snd (stmt (c_ID c) t)) = is_active t"
    unfolding stmt by (auto intro: is_active_update)
  show "balances (snd (stmt (c_ID c) t)) =
      (if in_int64 (c_AvailableBalance c + d) then move (balances t) pan d else balances t)"
    unfolding stmt using balances_update_id [OF assms(2,3), where d = d and u = "q_now q"
      and Q = "\<lambda>_. True"] by simp
qed

section \<open>The repository meets the contract\<close>

lemma GetCardByPAN_answer:
  assumes "GetCardByPAN q pan t = (x, t')"
  shows "t' = t \<and> (\<forall>c. x = Inr (Some c) \<longrightarrow> row_by_pan pan t = Some c)"
  using assms
  by (auto simp: GetCardByPAN_def exec_stmt_def sql_select_by_pan_def
      split: fault.splits prod.splits sum.splits)

lemma CreditBalance_by_pan:
  assumes "table_ok t" "row_by_pan pan t = Some c" "CreditBalance q (c_ID c) a t = (x, t')"
  shows "(x = Inr () \<longrightarrow> 0 < a \<and> balances t' = move (balances t) pan a) \<and>
    (balances t' = balances t \<or> 0 < a \<and> balances t' = move (balances t) pan a) \<and>
    is_active t' = is_active t \<and> table_ok t'"
proof (cases "a \<le> 0")
  case True
  with assms show ?thesis by (auto simp: CreditBalance_def)
next
  case False
  note eff = credit_stmt_effect [OF assms(1,2), of q a]
  show ?thesis
    using False assms(1,3) eff(2,3,4)
    by (auto simp: CreditBalance_def exec_stmt_def eff(1)
        split: fault.splits if_splits sum.splits prod.splits)
qed

lemma AuthorizeAndDebit_answer:
  assumes "table_ok t" "AuthorizeAndDebit q pan a t = (x, t')"
  shows "(case x of
      Inl e \<Rightarrow> t' = t \<or> 0 < a \<and> t' = snd (sql_authorize q pan a t)
    | Inr None \<Rightarrow> t' = t \<and> row_by_pan pan t = None
    | Inr (Some r) \<Rightarrow> 0 < a \<and> t' = snd (sql_authorize q pan a t) \<and>
        (\<exists>c. row_by_pan pan t = Some c \<and> r_Card r = Some c \<and>
          (r_Debited r \<longleftrightarrow> c_Status c = ''ACTIVE'' \<and> a \<le> c_AvailableBalance c) \<and>
          (r_Debited r \<longrightarrow> r_BalanceBefore r = c_AvailableBalance c
             \<and> r_BalanceAfter r = c_AvailableBalance c - a)))"
proof (cases "0 < a \<and> q_acquire q = None")
  case False
  then show ?thesis
    using assms(2) by (auto simp: AuthorizeAndDebit_def split: option.splits if_splits)
next
  case True
  show ?thesis
  proof (cases "row_by_pan pan t")
    case None
    with True assms(2) show ?thesis
      by (auto simp: AuthorizeAndDebit_def exec_stmt_def sql_authorize_absent split: fault.splits)
  next
    case (Some c)
    with True assms show ?thesis
      by (auto simp: AuthorizeAndDebit_def exec_stmt_def sql_authorize_found
          split: fault.splits if_splits)
  qed
qed

interpretation pg: card_store postgres_cards table_ok balances is_active
proof (unfold_locales, unfold postgres_cards_def CardStore.simps)
  fix q pan and s s' :: cards and x
  assume "table_ok s" "GetCardByPAN q pan s = (x, s')"
  then show "s' = s \<and> (\<forall>c. x = Inr (Some c) \<longrightarrow>
      c_PAN c = pan \<and> balances s pan = Some (c_AvailableBalance c))"
    by (auto dest!: GetCardByPAN_answer row_by_panD simp: balances_def)
next
  fix q pan and s s' t :: cards and c q' a
  assume "table_ok s" "GetCardByPAN q pan s = (Inr (Some c), s')"
    "CreditBalance q' (c_ID c) a s = (Inr (), t)"
  then show "0 < a \<and> balances t = move (balances s) pan a \<and> is_active t = is_active s \<and> table_ok t"
    using CreditBalance_by_pan GetCardByPAN_answer by blast
next
  fix q pan and s s' t :: cards and c q' a e
  assume "table_ok s" "GetCardByPAN q pan s = (Inr (Some c), s')"
    "CreditBalance q' (c_ID c) a s = (Inl e, t)"
  then show "(balances t = balances s \<or> 0 < a \<and> balances t = move (balances s) pan a) \<and>
      is_active t = is_active s \<and> table_ok t"
    using CreditBalance_by_pan GetCardByPAN_answer by blast
next
  fix q pan a and s t :: cards and r
  assume s: "table_ok s" "AuthorizeAndDebit q pan a s = (Inr (Some r), t)"
  from AuthorizeAndDebit_answer [OF this] sql_authorize_effect [OF s(1), of a q pan]
  show "0 < a \<and> table_ok t \<and> is_active t = is_active s \<and>
       (\<exists>c. r_Card r = Some c \<and> c_PAN c = pan \<and> balances s pan = Some (c_AvailableBalance c) \<and>
          (is_active s pan \<longleftrightarrow> c_Status c = ''ACTIVE'') \<and>
          (r_Debited r \<longleftrightarrow> is_active s pan \<and> a \<le> c_AvailableBalance c) \<and>
          (r_Debited r \<longrightarrow> r_BalanceBefore r = c_AvailableBalance c
                         \<and> r_BalanceAfter r = c_AvailableBalance c - a) \<and>
          balances t = (if r_Debited r then move (balances s) pan (- a) else balances s))"
    by (auto simp: balances_def is_active_def dest: row_by_panD)
next
  fix q pan a and s t :: cards
  assume s: "table_ok s" "AuthorizeAndDebit q pan a s = (Inr None, t)"
  from AuthorizeAndDebit_answer [OF this] show "balances s pan = None \<and> t = s"
    by (simp add: balances_def)
next
  fix q pan a and s t :: cards and e
  assume s: "table_ok s" "AuthorizeAndDebit q pan a s = (Inl e, t)"
  from AuthorizeAndDebit_answer [OF this] sql_authorize_effect [OF s(1), of a q pan]
  show "table_ok t \<and> is_active t = is_active s \<and>
       (balances t = balances s \<or>
        0 < a \<and> is_active s pan \<and> (\<exists>b. balances s pan = Some b \<and> a \<le> b) \<and>
        balances t = move (balances s) pan (- a))"
    using s(1) by (auto split: if_splits)
qed

end
