(* ===== verification/Auth_Engine.thy ===== *)
theory Auth_Engine
  imports Iso Auth_Rules Scheme_Bin Card_Repo
begin

text \<open>
  internal/auth/engine.go: the authorization engine. \<open>Authorize\<close> takes the store it was built
  with as an argument, like the Go struct field, and the environment of one request: the fate of
  its database calls, the clock and the random bytes. It answers with the response message and
  the decision, or with the error of a nil request.

  The lemmas in \<open>card_store\<close> say what a request can do to the money behind any store that keeps
  the contract; the ones after the interpretation give the response code of each branch on the
  card table.
\<close>

section \<open>The engine\<close>

record Decision =
  d_RespCode :: string
  d_AuthCode :: "string option"
  d_DeclineReason :: "string option"
  d_BalanceBefore :: "int64 option"
  d_BalanceAfter :: "int64 option"
  d_Duration :: int
  d_Scheme :: CardScheme

record auth_env =
  ae_q1 :: query_env
  ae_q2 :: query_env
  ae_now :: time
  ae_rand :: "nat \<Rightarrow> byte"
  ae_elapsed :: int

text \<open>\<open>NewEngine\<close>: an engine is its store; without one the constructor panics.\<close>

definition NewEngine :: "'s CardStore option \<Rightarrow> 's CardStore outcome" where
  "NewEngine s =
     (case s of
        None \<Rightarrow> Panic ''auth engine: store is nil - database is required''
      | Some ops \<Rightarrow> Return ops)"

definition generateAuthCode6 :: "(nat \<Rightarrow> byte) \<Rightarrow> string" where
  "generateAuthCode6 rnd = map (\<lambda>i. char_of (48 + unat (rnd i mod 10))) [0, 1, 2, 3, 4, 5]"

text \<open>The answer of the declining branches: response code and reason in both results.\<close>

definition declined ::
  "ISOMessage \<Rightarrow> Decision \<Rightarrow> string \<Rightarrow> string \<Rightarrow> go_error + ISOMessage \<times> Decision" where
  "declined resp decision rc reason =
     Inr (resp\<lparr>RespCode := rc\<rparr>,
          decision\<lparr>d_RespCode := rc, d_DeclineReason := Some reason\<rparr>)"

text \<open>What \<open>handleReversal\<close> makes of the outcome of the credit.\<close>

definition credit_answer ::
  "auth_env \<Rightarrow> ISOMessage \<Rightarrow> Decision \<Rightarrow> go_error + unit \<Rightarrow> go_error + ISOMessage \<times> Decision" where
  "credit_answer env resp decision x =
     (case x of
        Inl _ \<Rightarrow> declined resp decision RespSystemMalfunction ''credit failed''
      | Inr _ \<Rightarrow>
          let authCode = generateAuthCode6 (ae_rand env) in
          Inr (resp\<lparr>RespCode := RespApproved, AuthRespID := authCode\<rparr>,
               decision\<lparr>d_RespCode := RespApproved, d_AuthCode := Some authCode\<rparr>))"

definition handleReversal ::
  "'s CardStore \<Rightarrow> auth_env \<Rightarrow> ISOMessage \<Rightarrow> Decision \<Rightarrow> 's \<Rightarrow>
   (go_error + ISOMessage \<times> Decision) \<times> 's" where
  "handleReversal ops env req decision s =
     (let resp = response_of req in
      case ParseAmount12 (AmountTrn req) of
        Inl _ \<Rightarrow> (declined resp decision RespDoNotHonor ''invalid amount'', s)
      | Inr amount \<Rightarrow>
          (case cs_GetCardByPAN ops (ae_q1 env) (PAN req) s of
             (Inl _, s') \<Rightarrow> (declined resp decision RespSystemMalfunction ''card lookup failed'', s')
           | (Inr None, s') \<Rightarrow> (declined resp decision RespSystemMalfunction ''card lookup failed'', s')
           | (Inr (Some cardRow), s') \<Rightarrow>
               let (x, s'') = cs_CreditBalance ops (ae_q2 env) (c_ID cardRow) amount s'
               in (credit_answer env resp decision x, s'')))"

text \<open>\<open>len(req.MTI) == 4 && req.MTI[:2] == "04"\<close>.\<close>

definition is_reversal :: "ISOMessage \<Rightarrow> bool" where
  "is_reversal req \<longleftrightarrow> length (MTI req) = 4 \<and> take 2 (MTI req) = ''04''"

text \<open>What \<open>Authorize\<close> makes of the answer of the atomic lookup-and-debit.\<close>

definition debit_answer ::
  "auth_env \<Rightarrow> ISOMessage \<Rightarrow> Decision \<Rightarrow> go_error + AuthorizeDebitResult option \<Rightarrow>
   go_error + ISOMessage \<times> Decision" where
  "debit_answer env resp decision x =
     (case x of
        Inl _ \<Rightarrow> declined resp decision RespSystemMalfunction ''db error''
      | Inr None \<Rightarrow> declined resp decision RespInvalidCardNumber ''card not found''
      | Inr (Some result) \<Rightarrow>
          if \<not> r_Debited result then
            (let (rc, reason) = ValidateCardBasic (ae_now env) (r_Card result) in
             if rc \<noteq> [] then declined resp decision rc reason
             else declined resp decision RespInsufficientFunds ''insufficient funds'')
          else
            let authCode = generateAuthCode6 (ae_rand env) in
            Inr (resp\<lparr>RespCode := RespApproved, AuthRespID := authCode\<rparr>,
                 decision\<lparr>d_RespCode := RespApproved,
                          d_BalanceBefore := Some (r_BalanceBefore result),
                          d_BalanceAfter := Some (r_BalanceAfter result),
                          d_AuthCode := Some authCode\<rparr>))"

text \<open>The decision a request starts with, and its duration, set when it ends.\<close>

definition new_decision :: "auth_env \<Rightarrow> ISOMessage \<Rightarrow> Decision" where
  "new_decision env req =
     \<lparr>d_RespCode = [], d_AuthCode = None, d_DeclineReason = None,
      d_BalanceBefore = None, d_BalanceAfter = None,
      d_Duration = ae_elapsed env, d_Scheme = DetectScheme (PAN req)\<rparr>"

definition Authorize ::
  "'s CardStore \<Rightarrow> auth_env \<Rightarrow> ISOMessage option \<Rightarrow> 's \<Rightarrow>
   (go_error + ISOMessage \<times> Decision) \<times> 's" where
  "Authorize ops env req s =
     (case req of
        None \<Rightarrow> (Inl (Errorf ''request is nil''), s)
      | Some req \<Rightarrow>
          let decision = new_decision env req
          in if is_reversal req then handleReversal ops env req decision s
             else
               let resp = response_of req in
               (case ParseAmount12 (AmountTrn req) of
                  Inl _ \<Rightarrow> (declined resp decision RespDoNotHonor ''invalid amount'', s)
                | Inr amount \<Rightarrow>
                    let (x, s') = cs_AuthorizeAndDebit ops (ae_q1 env) (PAN req) amount s
                    in (debit_answer env resp decision x, s')))"

section \<open>Shape of the answer\<close>

lemma new_decision_blank [simp]:
  "d_AuthCode (new_decision env req) = None" "d_DeclineReason (new_decision env req) = None"
  by (simp_all add: new_decision_def)

lemma credit_answer_simps [simp]:
  "credit_answer env resp dec (Inl e) = declined resp dec RespSystemMalfunction ''credit failed''"
  "credit_answer env resp dec (Inr u) =
     Inr (resp\<lparr>RespCode := RespApproved, AuthRespID := generateAuthCode6 (ae_rand env)\<rparr>,
          dec\<lparr>d_RespCode := RespApproved, d_AuthCode := Some (generateAuthCode6 (ae_rand env))\<rparr>)"
  by (simp_all add: credit_answer_def Let_def)

lemma generateAuthCode6_digits:
  "length (generateAuthCode6 rnd) = 6" "ascii_digits (generateAuthCode6 rnd)"
proof -
  have "unat (b mod 10 :: byte) < 10" for b by (simp add: unat_mod)
  then show "ascii_digits (generateAuthCode6 rnd)"
    by (simp add: generateAuthCode6_def)
qed (simp add: generateAuthCode6_def)

text \<open>
  What relates a response to its request: the engine touches the MTI, the response code and the
  authorization code, and nothing else; the decision repeats the response code; an approval
  carries an authorization code and no other answer sets one.
\<close>

definition answers :: "auth_env \<Rightarrow> ISOMessage \<Rightarrow> ISOMessage \<Rightarrow> Decision \<Rightarrow> bool" where
  "answers env req resp dec \<longleftrightarrow>
     (d_RespCode dec = RespApproved \<and> d_AuthCode dec = Some (generateAuthCode6 (ae_rand env)) \<and>
        d_DeclineReason dec = None \<and>
        resp = (response_of req)\<lparr>RespCode := RespApproved,
                                  AuthRespID := generateAuthCode6 (ae_rand env)\<rparr>
      \<or> d_RespCode dec \<in> {RespDoNotHonor, RespInvalidCardNumber, RespInsufficientFunds,
                          RespExpiredCard, RespBlockedCard, RespSystemMalfunction} \<and>
        d_AuthCode dec = None \<and> d_DeclineReason dec \<noteq> None \<and>
        resp = (response_of req)\<lparr>RespCode := d_RespCode dec\<rparr>)"

lemma ValidateCardBasic_codes:
  "fst (ValidateCardBasic now c) \<noteq> [] \<Longrightarrow>
   fst (ValidateCardBasic now c) \<in> {RespInvalidCardNumber, RespBlockedCard, RespExpiredCard}"
  by (auto simp: ValidateCardBasic_def split: option.splits if_splits)

lemma declined_answers:
  "rc \<in> {RespDoNotHonor, RespInvalidCardNumber, RespInsufficientFunds,
          RespExpiredCard, RespBlockedCard, RespSystemMalfunction} \<Longrightarrow>
   d_AuthCode dec = None \<Longrightarrow>
   \<exists>resp' dec'. declined (response_of req) dec rc reason = Inr (resp', dec') \<and> answers env req resp' dec'"
  by (auto simp: declined_def answers_def)

lemma handleReversal_answers:
  "d_AuthCode dec = None \<Longrightarrow> d_DeclineReason dec = None \<Longrightarrow>
   \<exists>resp dec'. fst (handleReversal ops env req dec s) = Inr (resp, dec') \<and> answers env req resp dec'"
  by (auto simp: handleReversal_def credit_answer_def Let_def answers_def declined_def
      split: sum.split prod.split option.split)

lemma debit_answer_answers:
  assumes "d_AuthCode dec = None" "d_DeclineReason dec = None"
  shows "\<exists>resp dec'. debit_answer env (response_of req) dec x = Inr (resp, dec') \<and> answers env req resp dec'"
proof -
  consider (err) e where "x = Inl e" | (absent) "x = Inr None" | (hit) r where "x = Inr (Some r)"
    by (cases x; cases "projr x") auto
  then show ?thesis
  proof cases
    case hit
    obtain rc reason where v: "ValidateCardBasic (ae_now env) (r_Card r) = (rc, reason)" by force
    with ValidateCardBasic_codes [of "ae_now env" "r_Card r"]
    have rc: "rc \<noteq> [] \<Longrightarrow> rc \<in> {RespInvalidCardNumber, RespBlockedCard, RespExpiredCard}" by simp
    show ?thesis
    proof (cases "r_Debited r")
      case True
      with hit assms show ?thesis by (simp add: debit_answer_def answers_def Let_def)
    next
      case False
      then have "debit_answer env (response_of req) dec x =
          (if rc \<noteq> [] then declined (response_of req) dec rc reason
           else declined (response_of req) dec RespInsufficientFunds ''insufficient funds'')"
        by (simp add: debit_answer_def hit v)
      with rc assms show ?thesis by (auto intro!: declined_answers)
    qed
  qed (use assms in \<open>auto simp: debit_answer_def intro!: declined_answers\<close>)
qed

lemma Authorize_answers:
  "\<exists>resp dec. fst (Authorize ops env (Some req) s) = Inr (resp, dec) \<and> answers env req resp dec"
  unfolding Authorize_def
  by (auto simp: Let_def split: sum.split prod.split
      intro!: handleReversal_answers debit_answer_answers declined_answers)

text \<open>
  C23. The engine answers every request, over any store: the response differs from the request
  in the MTI's last two digits, the response code and, for an approval, the authorization code of
  six digits; the decision repeats the response code, one of seven; and exactly the answers that
  are not approvals give a reason.
\<close>

theorem authorize_always_answers:
  "\<exists>resp dec. fst (Authorize ops env (Some req) s) = Inr (resp, dec) \<and>
     RespCode resp = d_RespCode dec \<and>
     RespCode resp \<in> {RespApproved, RespDoNotHonor, RespInvalidCardNumber, RespInsufficientFunds,
       RespExpiredCard, RespBlockedCard, RespSystemMalfunction} \<and>
     resp = (if RespCode resp = RespApproved
       then (response_of req)\<lparr>RespCode := RespApproved, AuthRespID := generateAuthCode6 (ae_rand env)\<rparr>
       else (response_of req)\<lparr>RespCode := RespCode resp\<rparr>) \<and>
     length (generateAuthCode6 (ae_rand env)) = 6 \<and> ascii_digits (generateAuthCode6 (ae_rand env)) \<and>
     d_AuthCode dec = (if RespCode resp = RespApproved then Some (generateAuthCode6 (ae_rand env)) else None) \<and>
     (d_DeclineReason dec = None \<longleftrightarrow> RespCode resp = RespApproved)"
proof -
  obtain resp dec where A: "fst (Authorize ops env (Some req) s) = Inr (resp, dec)"
    and a: "answers env req resp dec" using Authorize_answers [of ops env req s] by blast
  have codes: "RespApproved \<notin> {RespDoNotHonor, RespInvalidCardNumber, RespInsufficientFunds,
      RespExpiredCard, RespBlockedCard, RespSystemMalfunction}" by (simp add: resp_codes)
  show ?thesis
  proof (cases "d_RespCode dec = RespApproved")
    case True
    with a codes have "d_AuthCode dec = Some (generateAuthCode6 (ae_rand env))" "d_DeclineReason dec = None"
      "resp = (response_of req)\<lparr>RespCode := RespApproved, AuthRespID := generateAuthCode6 (ae_rand env)\<rparr>"
      unfolding answers_def by auto
    with A True show ?thesis
      by (intro exI [of _ resp] exI [of _ dec]) (simp add: generateAuthCode6_digits)
  next
    case False
    with a have "d_AuthCode dec = None" "d_DeclineReason dec \<noteq> None"
      "resp = (response_of req)\<lparr>RespCode := d_RespCode dec\<rparr>"
      "d_RespCode dec \<in> {RespDoNotHonor, RespInvalidCardNumber, RespInsufficientFunds,
         RespExpiredCard, RespBlockedCard, RespSystemMalfunction}"
      unfolding answers_def by auto
    with A False show ?thesis
      by (intro exI [of _ resp] exI [of _ dec]) (simp add: generateAuthCode6_digits)
  qed
qed

section \<open>What a request does to the money\<close>

text \<open>The signed amount a request asks to move: a purchase takes, a reversal gives back.\<close>

definition requested :: "ISOMessage \<Rightarrow> int64" where
  "requested req =
     (case ParseAmount12 (AmountTrn req) of
        Inl _ \<Rightarrow> 0
      | Inr a \<Rightarrow> if is_reversal req then a else - a)"

text \<open>
  The money statement about one request. An approval moves exactly the requested amount; any
  other answer but a system malfunction moves nothing; a system malfunction moves nothing or,
  when a reply was lost, the whole amount.
\<close>

definition moves_as_answered :: "ledger \<Rightarrow> ISOMessage \<Rightarrow> string \<Rightarrow> ledger \<Rightarrow> bool" where
  "moves_as_answered L req rc L' \<longleftrightarrow>
     (if rc = RespApproved then requested req \<noteq> 0 \<and> L' = move L (PAN req) (requested req)
      else L' = L \<or> rc = RespSystemMalfunction \<and> L' = move L (PAN req) (requested req))"

text \<open>The response code of an answer, and how the debit's answer and the checks determine it.\<close>

definition code_of :: "go_error + ISOMessage \<times> Decision \<Rightarrow> string" where
  "code_of x = (case x of Inl _ \<Rightarrow> [] | Inr (resp, _) \<Rightarrow> RespCode resp)"

definition debit_code :: "time \<Rightarrow> go_error + AuthorizeDebitResult option \<Rightarrow> string" where
  "debit_code now x =
     (case x of
        Inl _ \<Rightarrow> RespSystemMalfunction
      | Inr None \<Rightarrow> RespInvalidCardNumber
      | Inr (Some r) \<Rightarrow>
          if r_Debited r then RespApproved
          else if fst (ValidateCardBasic now (r_Card r)) \<noteq> [] then fst (ValidateCardBasic now (r_Card r))
          else RespInsufficientFunds)"

lemma code_of_Inr [simp]: "code_of (Inr (resp, dec)) = RespCode resp"
  by (simp add: code_of_def)

lemma code_of_declined [simp]: "code_of (declined resp dec rc reason) = rc"
  by (simp add: declined_def)

lemma code_of_debit_answer [simp]:
  "code_of (debit_answer env resp dec x) = debit_code (ae_now env) x"
  by (simp add: debit_answer_def debit_code_def Let_def split: sum.split option.split prod.split)

lemma debit_code_approved:
  "debit_code now x = RespApproved \<longleftrightarrow> (\<exists>r. x = Inr (Some r) \<and> r_Debited r)"
  by (auto simp: debit_code_def ValidateCardBasic_def split: sum.splits option.splits)

lemma debit_code_malfunction:
  "debit_code now x = RespSystemMalfunction \<longleftrightarrow> (\<exists>e. x = Inl e)"
  by (auto simp: debit_code_def ValidateCardBasic_def split: sum.splits option.splits)

lemma Authorize_reversal:
  "is_reversal req \<Longrightarrow> \<exists>dec. Authorize ops env (Some req) s = handleReversal ops env req dec s"
  by (auto simp: Authorize_def Let_def)

lemma Authorize_bad_amount:
  assumes "ParseAmount12 (AmountTrn req) = Inl e"
  shows "code_of (fst (Authorize ops env (Some req) s)) = RespDoNotHonor"
    and "snd (Authorize ops env (Some req) s) = s"
  using assms by (simp_all add: Authorize_def handleReversal_def Let_def)

lemma Authorize_purchase:
  assumes "\<not> is_reversal req" "ParseAmount12 (AmountTrn req) = Inr a"
  shows "code_of (fst (Authorize ops env (Some req) s)) =
           debit_code (ae_now env) (fst (cs_AuthorizeAndDebit ops (ae_q1 env) (PAN req) a s))"
    and "snd (Authorize ops env (Some req) s) =
           snd (cs_AuthorizeAndDebit ops (ae_q1 env) (PAN req) a s)"
  using assms by (simp_all add: Authorize_def Let_def split: prod.split)

lemma sum_option_cases:
  obtains (err) e where "x = Inl e" | (absent) "x = Inr None" | (hit) r where "x = Inr (Some r)"
  by (cases x; cases "projr x") auto

context card_store
begin

lemma reversal_money:
  fixes env dec
  assumes "inv s" "is_reversal req"
  defines "A \<equiv> handleReversal ops env req dec s"
  shows "inv (snd A) \<and> active (snd A) = active s \<and>
    moves_as_answered (bal s) req (code_of (fst A)) (bal (snd A))"
proof (cases "ParseAmount12 (AmountTrn req)")
  case (Inl e)
  with assms show ?thesis by (simp add: handleReversal_def moves_as_answered_def)
next
  case amount: (Inr a)
  then have req: "requested req = a" using assms(2) by (simp add: requested_def)
  obtain x s' where look: "cs_GetCardByPAN ops (ae_q1 env) (PAN req) s = (x, s')" by force
  from lookup_pan [OF assms(1) look] have s': "s' = s" by simp
  show ?thesis
  proof (cases x rule: sum_option_cases)
    case (hit c)
    obtain y u where cr: "cs_CreditBalance ops (ae_q2 env) (c_ID c) a s = (y, u)" by force
    note got = look [unfolded hit]
    show ?thesis
    proof (cases y)
      case (Inl e)
      have "code_of (fst A) = RespSystemMalfunction" "snd A = u"
        using look amount cr Inl by (simp_all add: A_def handleReversal_def hit s')
      with credit_err [OF assms(1) got cr [unfolded Inl]] req show ?thesis
        by (auto simp: moves_as_answered_def)
    next
      case (Inr v)
      have "code_of (fst A) = RespApproved" "snd A = u"
        using look amount cr Inr by (simp_all add: A_def handleReversal_def hit s' Let_def)
      moreover have "cs_CreditBalance ops (ae_q2 env) (c_ID c) a s = (Inr (), u)"
        using cr Inr by simp
      ultimately show ?thesis using credit_ok [OF assms(1) got, of "ae_q2 env" a u] req
        by (simp add: moves_as_answered_def)
    qed
  qed (use assms(1) amount look s' in \<open>simp_all add: A_def handleReversal_def moves_as_answered_def\<close>)
qed

lemma purchase_money:
  fixes env
  assumes "inv s" "\<not> is_reversal req" "ParseAmount12 (AmountTrn req) = Inr a"
  defines "A \<equiv> Authorize ops env (Some req) s"
  shows "inv (snd A) \<and> active (snd A) = active s \<and>
    moves_as_answered (bal s) req (code_of (fst A)) (bal (snd A))"
proof -
  have req: "requested req = - a" using assms(2,3) by (simp add: requested_def)
  obtain x t where deb: "cs_AuthorizeAndDebit ops (ae_q1 env) (PAN req) a s = (x, t)" by force
  have A: "code_of (fst A) = debit_code (ae_now env) x" "snd A = t"
    using Authorize_purchase [OF assms(2,3), of ops env s] deb by (simp_all add: A_def)
  show ?thesis
  proof (cases x rule: sum_option_cases)
    case (err e)
    with debit_err [OF assms(1) deb [unfolded err]] req A show ?thesis
      by (auto simp: moves_as_answered_def debit_code_def)
  next
    case absent
    with debit_absent [OF assms(1) deb [unfolded absent]] assms(1) A show ?thesis
      by (auto simp: moves_as_answered_def debit_code_def)
  next
    case (hit r)
    with debit_found [OF assms(1) deb [unfolded hit]] req A show ?thesis
      by (auto simp: moves_as_answered_def debit_code_approved)
  qed
qed

lemma authorize_money:
  fixes env
  assumes "inv s"
  defines "A \<equiv> \<lambda>req. Authorize ops env (Some req) s"
  shows "inv (snd (A req)) \<and> active (snd (A req)) = active s \<and>
    moves_as_answered (bal s) req (code_of (fst (A req))) (bal (snd (A req)))"
proof (cases "is_reversal req")
  case True
  then show ?thesis using Authorize_reversal reversal_money [OF assms(1) True] A_def by metis
next
  case purchase: False
  show ?thesis
  proof (cases "ParseAmount12 (AmountTrn req)")
    case (Inl e)
    with Authorize_bad_amount [OF Inl, of ops env s] assms show ?thesis
      by (simp add: moves_as_answered_def)
  next
    case (Inr a)
    with purchase_money [OF assms(1) purchase Inr, of env] show ?thesis by (simp add: A_def)
  qed
qed

text \<open>A card that is not active pays nothing, also when the database misbehaves.\<close>

lemma inactive_purchase:
  assumes "inv s" "\<not> is_reversal req" "\<not> active s (PAN req)"
  shows "code_of (fst (Authorize ops env (Some req) s)) \<noteq> RespApproved \<and>
    bal (snd (Authorize ops env (Some req) s)) = bal s"
proof (cases "ParseAmount12 (AmountTrn req)")
  case (Inl e)
  with Authorize_bad_amount [OF Inl, of ops env s] show ?thesis by simp
next
  case (Inr a)
  obtain x t where deb: "cs_AuthorizeAndDebit ops (ae_q1 env) (PAN req) a s = (x, t)" by force
  have A: "code_of (fst (Authorize ops env (Some req) s)) = debit_code (ae_now env) x"
    "snd (Authorize ops env (Some req) s) = t"
    using Authorize_purchase [OF assms(2) Inr, of ops env s] deb by simp_all
  show ?thesis
  proof (cases x rule: sum_option_cases)
    case (err e)
    with debit_err [OF assms(1) deb [unfolded err]] assms(3) A show ?thesis by (auto simp: debit_code_approved)
  next
    case absent
    with debit_absent [OF assms(1) deb [unfolded absent]] A show ?thesis by (auto simp: debit_code_approved)
  next
    case (hit r)
    with debit_found [OF assms(1) deb [unfolded hit]] assms(3) A show ?thesis
      by (auto simp: debit_code_approved)
  qed
qed

text \<open>Nobody's balance goes below zero through the engine.\<close>

lemma authorize_solvent:
  assumes "inv s" and solvent: "\<forall>p b. bal s p = Some b \<longrightarrow> 0 \<le> b"
  shows "\<forall>p b. bal (snd (Authorize ops env (Some req) s)) p = Some b \<longrightarrow> 0 \<le> b"
proof (cases "requested req \<ge> 0")
  case True
  with authorize_money [OF assms(1), of env req] solvent show ?thesis
    by (auto simp: moves_as_answered_def move_def split: if_splits)
next
  case False
  then obtain a where a: "ParseAmount12 (AmountTrn req) = Inr a" and p: "\<not> is_reversal req"
    using ParseAmount12_InrD(4)
    by (auto simp: requested_def split: sum.splits if_splits)
  obtain x t where deb: "cs_AuthorizeAndDebit ops (ae_q1 env) (PAN req) a s = (x, t)" by force
  have t: "snd (Authorize ops env (Some req) s) = t"
    using Authorize_purchase [OF p a, of ops env s] deb by simp
  have keep: "\<exists>b'. bal t p = Some b' \<and> 0 \<le> b'" if "bal s p = Some b" for p b
    using debit_never_overdraws [OF assms(1) deb that] solvent that by blast
  have "dom (bal t) = dom (bal s)"
    using authorize_money [OF assms(1), of env req] unfolding t moves_as_answered_def
    by (metis dom_move)
  with keep show ?thesis unfolding t by (metis domD domI option.inject)
qed

end

end
