(* ===== verification/Auth_Ledger.thy ===== *)
theory Auth_Ledger
  imports Auth_Engine
begin

text \<open>
  The engine on the card table: the response code of every branch as a function of the stored
  card, and the money behind a whole sequence of requests (the issuer's workers run their
  database statements one after the other, each atomically).
\<close>

section \<open>The response code as a function of the stored card\<close>

definition purchase_code :: "time \<Rightarrow> Card option \<Rightarrow> int64 \<Rightarrow> string" where
  "purchase_code now row a =
     (if a \<le> 0 then RespSystemMalfunction
      else case row of
        None \<Rightarrow> RespInvalidCardNumber
      | Some c \<Rightarrow>
          if c_Status c \<noteq> ''ACTIVE'' then RespBlockedCard
          else if a \<le> c_AvailableBalance c then RespApproved
          else if \<not> expiryValidYYMM (c_ExpiryDate c) now then RespExpiredCard
          else RespInsufficientFunds)"

definition reversal_code :: "Card option \<Rightarrow> int64 \<Rightarrow> string" where
  "reversal_code row a =
     (case row of
        None \<Rightarrow> RespSystemMalfunction
      | Some c \<Rightarrow> if 0 < a \<and> in_int64 (c_AvailableBalance c + a) then RespApproved
                  else RespSystemMalfunction)"

text \<open>The database answers both calls of the request.\<close>

definition db_up :: "auth_env \<Rightarrow> bool" where
  "db_up env \<longleftrightarrow> q_acquire (ae_q1 env) = None \<and> q_fault (ae_q1 env) = Done \<and> q_fault (ae_q2 env) = Done"

lemma postgres_ops [simp]:
  "cs_AuthorizeAndDebit postgres_cards = AuthorizeAndDebit"
  "cs_GetCardByPAN postgres_cards = GetCardByPAN"
  "cs_CreditBalance postgres_cards = CreditBalance"
  by (simp_all add: postgres_cards_def)

lemma purchase_branches:
  assumes "table_ok t" "db_up env" "\<not> is_reversal req" "ParseAmount12 (AmountTrn req) = Inr a"
  shows "code_of (fst (Authorize postgres_cards env (Some req) t)) =
    purchase_code (ae_now env) (row_by_pan (PAN req) t) a"
proof (cases "a \<le> 0")
  case True
  then show ?thesis
    by (simp add: Authorize_purchase [OF assms(3,4)] AuthorizeAndDebit_def debit_code_def purchase_code_def)
next
  case False
  show ?thesis
  proof (cases "row_by_pan (PAN req) t")
    case None
    with False assms(2) show ?thesis
      by (simp add: Authorize_purchase [OF assms(3,4)] AuthorizeAndDebit_def db_up_def
          sql_authorize_absent debit_code_def purchase_code_def)
  next
    case (Some c)
    with False assms(2) show ?thesis
      by (simp add: Authorize_purchase [OF assms(3,4)] AuthorizeAndDebit_def db_up_def
          sql_authorize_found [OF assms(1) Some] debit_code_def purchase_code_def
          ValidateCardBasic_def resp_codes)
  qed
qed

lemma reversal_branches:
  assumes "table_ok t" "db_up env" "is_reversal req" "ParseAmount12 (AmountTrn req) = Inr a"
  shows "code_of (fst (Authorize postgres_cards env (Some req) t)) =
      reversal_code (row_by_pan (PAN req) t) a"
    and "balances (snd (Authorize postgres_cards env (Some req) t)) =
      (if reversal_code (row_by_pan (PAN req) t) a = RespApproved
       then move (balances t) (PAN req) a else balances t)"
proof -
  obtain dec where A: "Authorize postgres_cards env (Some req) t = handleReversal postgres_cards env req dec t"
    using Authorize_reversal [OF assms(3), of postgres_cards env t] by blast
  have "code_of (fst (Authorize postgres_cards env (Some req) t)) = reversal_code (row_by_pan (PAN req) t) a \<and>
    balances (snd (Authorize postgres_cards env (Some req) t)) =
      (if reversal_code (row_by_pan (PAN req) t) a = RespApproved
       then move (balances t) (PAN req) a else balances t)"
  proof (cases "row_by_pan (PAN req) t")
    case None
    with assms(2) show ?thesis
      by (simp add: A handleReversal_def assms(4) GetCardByPAN_def sql_select_by_pan_def db_up_def
          reversal_code_def)
  next
    case (Some c)
    note eff = credit_stmt_effect [OF assms(1) Some, of "ae_q2 env" a]
    have look: "GetCardByPAN (ae_q1 env) (PAN req) t = (Inr (Some c), t)"
      using assms(2) Some by (simp add: GetCardByPAN_def sql_select_by_pan_def db_up_def)
    show ?thesis
    proof (cases "0 < a \<and> in_int64 (c_AvailableBalance c + a)")
      case True
      then have "CreditBalance (ae_q2 env) (c_ID c) a t =
          (Inr (), snd (sql_update (\<lambda>r. c_ID r = c_ID c)
             (\<lambda>r. r\<lparr>c_AvailableBalance := c_AvailableBalance r + a, c_UpdatedAt := q_now (ae_q2 env)\<rparr>) t))"
        using assms(2) eff(1) by (simp add: CreditBalance_def db_up_def)
      with True look eff(4) Some show ?thesis
        by (simp add: A handleReversal_def assms(4) reversal_code_def Let_def)
    next
      case False
      then have "\<exists>e. CreditBalance (ae_q2 env) (c_ID c) a t = (Inl e, t)"
        using assms(2) eff(1) by (auto simp: CreditBalance_def db_up_def)
      with False look Some show ?thesis
        by (auto simp: A handleReversal_def assms(4) reversal_code_def)
    qed
  qed
  then show "code_of (fst (Authorize postgres_cards env (Some req) t)) = reversal_code (row_by_pan (PAN req) t) a"
    and "balances (snd (Authorize postgres_cards env (Some req) t)) =
      (if reversal_code (row_by_pan (PAN req) t) a = RespApproved
       then move (balances t) (PAN req) a else balances t)" by simp_all
qed

section \<open>Sequences of requests\<close>

fun run_requests ::
  "'s CardStore \<Rightarrow> (auth_env \<times> ISOMessage) list \<Rightarrow> 's \<Rightarrow> string list \<times> 's" where
  "run_requests ops [] s = ([], s)"
| "run_requests ops ((env, req) # rest) s =
    (let (x, s') = Authorize ops env (Some req) s;
         (codes, t) = run_requests ops rest s'
     in (code_of x # codes, t))"

text \<open>
  The net movement on one PAN: the requested amounts of the approved requests, and of those
  answered with a system malfunction whose reply was lost (the flags).
\<close>

fun net_movement :: "string \<Rightarrow> (ISOMessage \<times> string \<times> bool) list \<Rightarrow> int64" where
  "net_movement p [] = 0"
| "net_movement p ((req, code, lost) # rest) =
    (if PAN req = p \<and> (code = RespApproved \<or> lost) then requested req else 0) + net_movement p rest"

text \<open>Flags may be set on system malfunctions only.\<close>

fun lost_only_on_malfunction :: "string list \<Rightarrow> bool list \<Rightarrow> bool" where
  "lost_only_on_malfunction [] [] = True"
| "lost_only_on_malfunction (c # cs) (l # ls) =
    ((l \<longrightarrow> c = RespSystemMalfunction) \<and> lost_only_on_malfunction cs ls)"
| "lost_only_on_malfunction _ _ = False"

context card_store
begin

lemma run_conserves:
  assumes "inv s" "run_requests ops reqs s = (codes, t)"
  shows "inv t \<and> active t = active s \<and>
    (\<exists>lost. lost_only_on_malfunction codes lost \<and> length codes = length reqs \<and>
       (\<forall>p. bal t p = map_option (\<lambda>b. b + net_movement p (zip (map snd reqs) (zip codes lost))) (bal s p)))"
  using assms
proof (induction reqs arbitrary: s codes t)
  case Nil
  then have "lost_only_on_malfunction codes [] \<and> codes = [] \<and> t = s" by auto
  with Nil show ?case by (auto simp: option.map_ident intro!: exI [of _ "[]"])
next
  case (Cons er reqs)
  obtain env req where er: "er = (env, req)" by force
  obtain x s' where A: "Authorize ops env (Some req) s = (x, s')" by force
  obtain cs u where R: "run_requests ops reqs s' = (cs, u)" by force
  have codes: "codes = code_of x # cs" "t = u" using Cons.prems(2) by (simp_all add: er A R)
  note step = authorize_money [OF Cons.prems(1), of env req, unfolded A fst_conv snd_conv]
  then have "inv s'" by simp
  from Cons.IH [OF this R] obtain lost where IH: "lost_only_on_malfunction cs lost" "length cs = length reqs"
    "\<forall>p. bal u p = map_option (\<lambda>b. b + net_movement p (zip (map snd reqs) (zip cs lost))) (bal s' p)"
    "inv u" "active u = active s'" by blast
  define l where "l = (code_of x \<noteq> RespApproved \<and> bal s' \<noteq> bal s)"
  have s': "bal s' = (if code_of x = RespApproved \<or> l then move (bal s) (PAN req) (requested req) else bal s)"
    using step by (auto simp: moves_as_answered_def l_def split: if_splits)
  have "l \<longrightarrow> code_of x = RespSystemMalfunction"
    using step by (auto simp: moves_as_answered_def l_def split: if_splits)
  with IH have "lost_only_on_malfunction codes (l # lost)" "length codes = length (er # reqs)"
    by (simp_all add: codes)
  moreover have "\<forall>p. bal t p = map_option
      (\<lambda>b. b + net_movement p (zip (map snd (er # reqs)) (zip codes (l # lost)))) (bal s p)"
    using IH(3) by (auto simp: codes er s' move_def option.map_comp comp_def add.assoc)
  ultimately show ?case using IH(4,5) step unfolding codes(2) by metis
qed

end

text \<open>Without lost replies, an error of the table's operations leaves it as it was.\<close>

definition no_lost_reply :: "auth_env \<Rightarrow> bool" where
  "no_lost_reply env \<longleftrightarrow> (\<forall>e. q_fault (ae_q1 env) \<noteq> LostReply e \<and> q_fault (ae_q2 env) \<noteq> LostReply e)"

lemma sql_update_Inl: "sql_update P f t = (Inl e, t') \<Longrightarrow> t' = t"
  by (auto simp: sql_update_def split: if_splits)

lemma AuthorizeAndDebit_Inl_same:
  "(\<And>e. q_fault q \<noteq> LostReply e) \<Longrightarrow> AuthorizeAndDebit q pan a t = (Inl e, t') \<Longrightarrow> t' = t"
  by (auto simp: AuthorizeAndDebit_def exec_stmt_def sql_authorize_def Let_def
      split: fault.splits option.splits if_splits)

lemma CreditBalance_Inl_same:
  assumes "table_ok t" "\<And>e. q_fault q \<noteq> LostReply e" "CreditBalance q i a t = (Inl e, t')"
  shows "t' = t"
  using assms(2,3) rows_affected_id [OF assms(1), of i]
  by (auto simp: CreditBalance_def exec_stmt_def sql_update_def rows_affected_0
      split: fault.splits if_splits)

lemma malfunction_moves_nothing:
  assumes "table_ok t" "no_lost_reply env"
    "code_of (fst (Authorize postgres_cards env (Some req) t)) = RespSystemMalfunction"
  shows "snd (Authorize postgres_cards env (Some req) t) = t"
proof (cases "ParseAmount12 (AmountTrn req)")
  case (Inl e)
  then show ?thesis by (rule Authorize_bad_amount)
next
  case amount: (Inr a)
  show ?thesis
  proof (cases "is_reversal req")
    case False
    obtain x u where deb: "AuthorizeAndDebit (ae_q1 env) (PAN req) a t = (x, u)" by force
    with assms(3) have "\<exists>e. x = Inl e"
      by (simp add: Authorize_purchase [OF False amount] debit_code_malfunction)
    with deb assms(2) AuthorizeAndDebit_Inl_same have "u = t" unfolding no_lost_reply_def by blast
    with deb show ?thesis by (simp add: Authorize_purchase [OF False amount])
  next
    case True
    obtain dec where A: "Authorize postgres_cards env (Some req) t = handleReversal postgres_cards env req dec t"
      using Authorize_reversal [OF True, of postgres_cards env t] by blast
    obtain x u where look: "GetCardByPAN (ae_q1 env) (PAN req) t = (x, u)" by force
    then have u: "u = t" using GetCardByPAN_answer by blast
    show ?thesis
    proof (cases x rule: sum_option_cases)
      case (hit c)
      obtain y v where cr: "CreditBalance (ae_q2 env) (c_ID c) a t = (y, v)" by force
      with assms(3) look amount have "\<exists>e. y = Inl e"
        by (cases y) (simp_all add: A handleReversal_def hit u Let_def)
      with cr assms(1,2) CreditBalance_Inl_same have "v = t" unfolding no_lost_reply_def by blast
      with cr look amount show ?thesis
        by (simp add: A handleReversal_def hit u Let_def split: sum.split)
    qed (use look u amount in \<open>simp_all add: A handleReversal_def\<close>)
  qed
qed

lemma run_exact:
  assumes "table_ok t" "\<forall>er \<in> set reqs. no_lost_reply (fst er)"
    "run_requests postgres_cards reqs t = (codes, u)"
  shows "table_ok u \<and> (\<forall>p. balances u p = map_option (\<lambda>b. b + net_movement p
      (zip (map snd reqs) (zip codes (replicate (length reqs) False)))) (balances t p))"
  using assms
proof (induction reqs arbitrary: t codes u)
  case Nil
  then show ?case by (auto simp: option.map_ident)
next
  case (Cons er reqs)
  obtain env req where er: "er = (env, req)" by force
  obtain x t' where A: "Authorize postgres_cards env (Some req) t = (x, t')" by force
  obtain cs v where R: "run_requests postgres_cards reqs t' = (cs, v)" by force
  have codes: "codes = code_of x # cs" "u = v" using Cons.prems(3) by (simp_all add: er A R)
  note step = pg.authorize_money [OF Cons.prems(1), of env req, unfolded A fst_conv snd_conv]
  have same: "code_of x = RespSystemMalfunction \<longrightarrow> balances t' = balances t"
    using malfunction_moves_nothing [OF Cons.prems(1), of env req] Cons.prems(2) A by (auto simp: er)
  have t': "balances t' =
      (if code_of x = RespApproved then move (balances t) (PAN req) (requested req) else balances t)"
    using step same by (auto simp: moves_as_answered_def split: if_splits)
  have "table_ok t'" "\<forall>er \<in> set reqs. no_lost_reply (fst er)" using step Cons.prems(2) by simp_all
  from Cons.IH [OF this R] t' show ?case
    by (auto simp: codes er move_def option.map_comp comp_def add.assoc)
qed

end
