(* ===== verification/Audit_Log.thy ===== *)
theory Audit_Log
  imports Sql
begin

text \<open>
  The audit path both services share (\<open>auditCh\<close>, \<open>auditWorker\<close> and the \<open>select\<close> with a
  \<open>default\<close> in issuer/service.go and acquirer/http.go): a channel of capacity 1000 that a handler
  offers a record to without ever blocking, and three workers that take records off it and
  insert them, ignoring the result.

  The store is an interface, the operation \<open>create\<close>; the locale \<open>audit_store\<close> is what the path
  relies on: an insertion that answers without error adds one row for the record, and one that
  fails adds at most that row.
\<close>

definition audit_capacity :: nat where "audit_capacity = 1000"
definition audit_workers :: nat where "audit_workers = 3"

text \<open>\<open>select { case ch <- tx: default: }\<close>.\<close>

definition audit_offer :: "'tx \<Rightarrow> 'tx list \<Rightarrow> 'tx list" where
  "audit_offer tx ch = (if length ch < audit_capacity then ch @ [tx] else ch)"

lemma audit_offer_bound: "length ch \<le> audit_capacity \<Longrightarrow> length (audit_offer tx ch) \<le> audit_capacity"
  by (simp add: audit_offer_def)

section \<open>The channel and its workers as a state machine\<close>

record ('tx, 'tab) audit =
  au_ch :: "'tx list"
  au_busy :: "'tx list"
  au_table :: 'tab

datatype 'tx audit_event =
    Queued 'tx
  | Dropped 'tx
  | Taken 'tx
  | Wrote 'tx
  | Failed 'tx

inductive audit_step ::
  "(query_env \<Rightarrow> 'tx \<Rightarrow> 'tab \<Rightarrow> (go_error + 'tx) \<times> 'tab) \<Rightarrow>
   'tx audit_event \<Rightarrow> ('tx, 'tab) audit \<Rightarrow> ('tx, 'tab) audit \<Rightarrow> bool"
  for create where
  queue: "length (au_ch s) < audit_capacity \<Longrightarrow>
    audit_step create (Queued tx) s (s\<lparr>au_ch := audit_offer tx (au_ch s)\<rparr>)"
| full: "\<not> length (au_ch s) < audit_capacity \<Longrightarrow>
    audit_step create (Dropped tx) s (s\<lparr>au_ch := audit_offer tx (au_ch s)\<rparr>)"
| receive: "au_ch s = tx # rest \<Longrightarrow> length (au_busy s) < audit_workers \<Longrightarrow>
    audit_step create (Taken tx) s (s\<lparr>au_ch := rest, au_busy := au_busy s @ [tx]\<rparr>)"
| insert_ok: "au_busy s = xs @ tx # ys \<Longrightarrow> create q tx (au_table s) = (Inr r, t) \<Longrightarrow>
    audit_step create (Wrote tx) s (s\<lparr>au_busy := xs @ ys, au_table := t\<rparr>)"
| insert_err: "au_busy s = xs @ tx # ys \<Longrightarrow> create q tx (au_table s) = (Inl e, t) \<Longrightarrow>
    audit_step create (Failed tx) s (s\<lparr>au_busy := xs @ ys, au_table := t\<rparr>)"

inductive_cases audit_stepE: "audit_step create ev s s'"

inductive audit_run ::
  "(query_env \<Rightarrow> 'tx \<Rightarrow> 'tab \<Rightarrow> (go_error + 'tx) \<times> 'tab) \<Rightarrow> 'tab \<Rightarrow>
   'tx audit_event list \<Rightarrow> ('tx, 'tab) audit \<Rightarrow> bool"
  for create t0 where
  start: "audit_run create t0 [] \<lparr>au_ch = [], au_busy = [], au_table = t0\<rparr>"
| step: "audit_run create t0 evs s \<Longrightarrow> audit_step create ev s s' \<Longrightarrow>
    audit_run create t0 (evs @ [ev]) s'"

text \<open>The records a run's events are about, by kind.\<close>

fun queued_in :: "'tx audit_event list \<Rightarrow> 'tx multiset" where
  "queued_in [] = {#}"
| "queued_in (Queued tx # es) = add_mset tx (queued_in es)"
| "queued_in (_ # es) = queued_in es"

fun wrote_in :: "'tx audit_event list \<Rightarrow> 'tx multiset" where
  "wrote_in [] = {#}"
| "wrote_in (Wrote tx # es) = add_mset tx (wrote_in es)"
| "wrote_in (_ # es) = wrote_in es"

fun failed_in :: "'tx audit_event list \<Rightarrow> 'tx multiset" where
  "failed_in [] = {#}"
| "failed_in (Failed tx # es) = add_mset tx (failed_in es)"
| "failed_in (_ # es) = failed_in es"

text \<open>What the handlers offered, whether it entered the channel or not, and what was dropped.\<close>

fun dropped_in :: "'tx audit_event list \<Rightarrow> 'tx multiset" where
  "dropped_in [] = {#}"
| "dropped_in (Dropped tx # es) = add_mset tx (dropped_in es)"
| "dropped_in (_ # es) = dropped_in es"

fun taken_in :: "'tx audit_event list \<Rightarrow> 'tx multiset" where
  "taken_in [] = {#}"
| "taken_in (Taken tx # es) = add_mset tx (taken_in es)"
| "taken_in (_ # es) = taken_in es"

definition offered_in :: "'tx audit_event list \<Rightarrow> 'tx multiset" where
  "offered_in es = queued_in es + dropped_in es"

lemma taken_in_snoc [simp]:
  "taken_in (es @ [e]) = taken_in es + (case e of Taken tx \<Rightarrow> {#tx#} | _ \<Rightarrow> {#})"
  by (induction es rule: taken_in.induct) (auto split: audit_event.splits)

lemma queued_in_snoc [simp]:
  "queued_in (es @ [e]) = queued_in es + (case e of Queued tx \<Rightarrow> {#tx#} | _ \<Rightarrow> {#})"
  by (induction es rule: queued_in.induct) (auto split: audit_event.splits)

lemma wrote_in_snoc [simp]:
  "wrote_in (es @ [e]) = wrote_in es + (case e of Wrote tx \<Rightarrow> {#tx#} | _ \<Rightarrow> {#})"
  by (induction es rule: wrote_in.induct) (auto split: audit_event.splits)

lemma failed_in_snoc [simp]:
  "failed_in (es @ [e]) = failed_in es + (case e of Failed tx \<Rightarrow> {#tx#} | _ \<Rightarrow> {#})"
  by (induction es rule: failed_in.induct) (auto split: audit_event.splits)

text \<open>The bounds, and the account of every record that entered the channel.\<close>

definition audit_account :: "'tx audit_event list \<Rightarrow> ('tx, 'tab) audit \<Rightarrow> bool" where
  "audit_account evs s \<longleftrightarrow>
     length (au_ch s) \<le> audit_capacity \<and> length (au_busy s) \<le> audit_workers \<and>
     queued_in evs = mset (au_ch s) + mset (au_busy s) + wrote_in evs + failed_in evs"

lemma audit_step_account:
  "audit_step create ev s s' \<Longrightarrow> audit_account evs s \<Longrightarrow> audit_account (evs @ [ev]) s'"
  by (erule audit_stepE) (auto simp: audit_account_def audit_offer_def)

lemma audit_run_account: "audit_run create t0 evs s \<Longrightarrow> audit_account evs s"
proof (induction rule: audit_run.induct)
  case start
  show ?case by (simp add: audit_account_def)
next
  case (step evs s ev s')
  then show ?case by (blast intro: audit_step_account)
qed

text \<open>A record is dropped only while the channel holds as many records as it can.\<close>

lemma audit_run_waiting: "audit_run create t0 evs s \<Longrightarrow> queued_in evs = mset (au_ch s) + taken_in evs"
proof (induction rule: audit_run.induct)
  case (step evs s ev s')
  from step.hyps(2) step.IH show ?case by cases (auto simp: audit_offer_def)
qed simp

lemma audit_run_prefix:
  "audit_run create t0 evs s \<Longrightarrow> evs = pre @ ev # post \<Longrightarrow>
   \<exists>u u'. audit_run create t0 pre u \<and> audit_step create ev u u'"
proof (induction arbitrary: post rule: audit_run.induct)
  case (step evs s ev' s')
  then show ?case by (cases post rule: rev_cases) auto
qed simp

lemma dropped_when_full:
  assumes "audit_run create t0 evs s" "evs = pre @ Dropped tx # post"
  shows "size (queued_in pre) = audit_capacity + size (taken_in pre)"
proof -
  obtain u u' where u: "audit_run create t0 pre u" "audit_step create (Dropped tx) u u'"
    using audit_run_prefix [OF assms] by blast
  from u(2) have "\<not> length (au_ch u) < audit_capacity" by cases
  moreover have "length (au_ch u) \<le> audit_capacity"
    using audit_run_account [OF u(1)] by (simp add: audit_account_def)
  ultimately show ?thesis using audit_run_waiting [OF u(1)] by simp
qed

section \<open>The store behind the workers\<close>

text \<open>\<open>rows\<close> is the multiset of records in the store, without what the store adds to each.\<close>

locale audit_store =
  fixes create :: "query_env \<Rightarrow> 'tx \<Rightarrow> 'tab \<Rightarrow> (go_error + 'tx) \<times> 'tab"
    and strip :: "'tx \<Rightarrow> 'tx"
    and rows :: "'tab \<Rightarrow> 'tx multiset"
  assumes create_ok: "create q tx t = (Inr r, t') \<Longrightarrow> rows t' = add_mset (strip tx) (rows t)"
    and create_err: "create q tx t = (Inl e, t') \<Longrightarrow> rows t' = rows t \<or> rows t' = add_mset (strip tx) (rows t)"
begin

text \<open>
  Every row the workers added is for a record some handler queued: rows appear for all the
  written records and for none but the written and the failed ones.
\<close>

lemma audit_rows:
  "audit_run create t0 evs s \<Longrightarrow>
   \<exists>extra. extra \<subseteq># failed_in evs \<and>
     rows (au_table s) = rows t0 + image_mset strip (wrote_in evs) + image_mset strip extra"
proof (induction rule: audit_run.induct)
  case start
  show ?case by simp
next
  case (step evs s ev s')
  then obtain extra where extra: "extra \<subseteq># failed_in evs"
    "rows (au_table s) = rows t0 + image_mset strip (wrote_in evs) + image_mset strip extra" by blast
  from step.hyps(2) show ?case
  proof cases
    case (insert_ok xs tx ys q r t)
    with extra create_ok [OF insert_ok(4)] show ?thesis by (intro exI [of _ extra]) simp
  next
    case (insert_err xs tx ys q e t)
    from create_err [OF insert_err(4)] show ?thesis
    proof
      assume "rows t = rows (au_table s)"
      with insert_err extra show ?thesis
        by (intro exI [of _ extra]) (auto intro: subset_mset.order_trans)
    next
      assume "rows t = add_mset (strip tx) (rows (au_table s))"
      with insert_err extra show ?thesis by (intro exI [of _ "add_mset tx extra"]) simp
    qed
  qed (use extra in auto)
qed

lemma audit_rows_queued:
  assumes "audit_run create t0 evs s" "rows t0 = {#}"
  shows "rows (au_table s) \<subseteq># image_mset strip (queued_in evs)"
proof -
  from audit_rows [OF assms(1)] assms(2) obtain extra where
    e: "extra \<subseteq># failed_in evs" "rows (au_table s) = image_mset strip (wrote_in evs + extra)" by auto
  have "wrote_in evs + extra \<subseteq># queued_in evs"
    using audit_run_account [OF assms(1)] e(1)
    by (simp add: audit_account_def subseteq_mset_def le_add2 add_le_mono trans_le_add2)
  then show ?thesis unfolding e(2) by (rule image_mset_subseteq_mono)
qed

end

end
