(* ===== verification/Issuer_Service.thy ===== *)
theory Issuer_Service
  imports Auth_Ledger Audit_Log
begin

text \<open>
  internal/issuer/service.go: one request of the issuer, from the hex string of the frame to the
  hex string of the answer. \<open>HandleHex\<close> parses the message, lets the engine decide (the only
  step that touches the card store), packs the response and offers one audit record to the
  channel of \<open>Audit_Log\<close>. The state is the card store and the audit channel.
\<close>

section \<open>The service\<close>

record 's issuer =
  is_store :: 's
  is_audit :: "IssuerTransaction list"

text \<open>\<open>NewService\<close>: the engine over the store and an empty audit channel (of \<open>audit_capacity\<close> places).\<close>

definition NewService :: "'s CardStore option \<Rightarrow> 's \<Rightarrow> ('s CardStore \<times> 's issuer) outcome" where
  "NewService appStore s =
     (if appStore = None then Panic ''issuer service: store is nil - database is required''
      else case NewEngine appStore of
        Panic p \<Rightarrow> Panic p
      | Return engine \<Rightarrow> Return (engine, \<lparr>is_store = s, is_audit = []\<rparr>))"

definition decideResponse :: "ISOMessage \<Rightarrow> ISOMessage" where
  "decideResponse req =
     (let resp = response_of req in
      if AmountTrn resp = [] then resp\<lparr>RespCode := ''05''\<rparr> else resp\<lparr>RespCode := ''00''\<rparr>)"

text \<open>
  The audit record of a request: trimmed copies of the request's fields, the masked PAN, the
  status by response code, and what the decision says. Fields Go leaves at their zero value are
  empty, absent or 0.
\<close>

definition issuer_tx :: "ISOMessage \<Rightarrow> ISOMessage \<Rightarrow> Decision option \<Rightarrow> IssuerTransaction" where
  "issuer_tx reqMsg respMsg decision =
     (let amount = (case ParseAmount12 (AmountTrn reqMsg) of Inl _ \<Rightarrow> 0 | Inr a \<Rightarrow> a);
          status = (if RespCode respMsg = RespApproved then ''APPROVED'' else ''DECLINED'');
          rc = (if trim_space (RespCode respMsg) \<noteq> [] then Some (trim_space (RespCode respMsg))
                else None)
      in \<lparr>it_ID = [], it_STAN = trim_space (STAN reqMsg), it_RRN = None,
          it_MTI = trim_space (MTI reqMsg), it_PANMasked = MaskPAN (PAN reqMsg),
          it_Amount = amount, it_CurrencyCode = trim_space (CurCodeTrn reqMsg),
          it_Status = status, it_ResponseCode = rc,
          it_AuthCode = Option.bind decision d_AuthCode,
          it_DeclineReason = Option.bind decision d_DeclineReason,
          it_BalanceBefore = Option.bind decision d_BalanceBefore,
          it_BalanceAfter = Option.bind decision d_BalanceAfter,
          it_ProcessingTime = map_option d_Duration decision,
          it_CreatedAt = 0, it_UpdatedAt = 0\<rparr>)"

text \<open>\<open>respMsg\<close> and \<open>decision\<close> after the engine's call, for a service with or without an engine.\<close>

definition engine_answer ::
  "'s CardStore option \<Rightarrow> auth_env \<Rightarrow> ISOMessage \<Rightarrow> 's \<Rightarrow> (ISOMessage \<times> Decision option) \<times> 's" where
  "engine_answer engine env reqMsg s =
     (case engine of
        None \<Rightarrow> ((decideResponse reqMsg, None), s)
      | Some ops \<Rightarrow>
          (case Authorize ops env (Some reqMsg) s of
             (Inl _, s') \<Rightarrow> ((decideResponse reqMsg, None), s')
           | (Inr (authResp, dec), s') \<Rightarrow> ((authResp, Some dec), s')))"

definition HandleHex ::
  "'m iso_lib \<Rightarrow> 's CardStore option \<Rightarrow> auth_env \<Rightarrow> string \<Rightarrow> 's issuer \<Rightarrow>
   (go_error + string \<times> ISOMessage) \<times> 's issuer" where
  "HandleHex lib engine env hexReq st =
     (case ParseHexToMessage lib hexReq of
        Inl e \<Rightarrow> (Inl (Wrapf ''parse request'' e), st)
      | Inr reqMsg \<Rightarrow>
          let ((respMsg, decision), s') = engine_answer engine env reqMsg (is_store st);
              st' = st\<lparr>is_store := s'\<rparr>
          in (case PackMessageToHex lib (Some respMsg) of
                Inl e \<Rightarrow> (Inl (Wrapf ''pack response'' e), st')
              | Inr hexResp \<Rightarrow>
                  (Inr (hexResp, respMsg),
                   st'\<lparr>is_audit := audit_offer (issuer_tx reqMsg respMsg decision) (is_audit st')\<rparr>)))"

section \<open>What one request does\<close>

text \<open>
  The engine never fails on a parsed message, so the answer of \<open>decideResponse\<close> never leaves a
  service that has one.
\<close>

lemma engine_answer_answers:
  obtains resp dec where
    "engine_answer (Some ops) env req s = ((resp, Some dec), snd (Authorize ops env (Some req) s))"
    "fst (Authorize ops env (Some req) s) = Inr (resp, dec)" "answers env req resp dec"
proof -
  obtain resp dec where a: "fst (Authorize ops env (Some req) s) = Inr (resp, dec)"
    "answers env req resp dec" using Authorize_answers [of ops env req s] by blast
  moreover obtain s' where "Authorize ops env (Some req) s = (Inr (resp, dec), s')"
    using a(1) by (cases "Authorize ops env (Some req) s") simp
  then have "engine_answer (Some ops) env req s =
      ((resp, Some dec), snd (Authorize ops env (Some req) s))"
    by (simp add: engine_answer_def)
  ultimately show ?thesis using that by blast
qed

lemma HandleHex_unparsed:
  "ParseHexToMessage lib hexReq = Inl e \<Longrightarrow>
   HandleHex lib engine env hexReq st = (Inl (Wrapf ''parse request'' e), st)"
  by (simp add: HandleHex_def)

lemma HandleHex_parsed:
  assumes "ParseHexToMessage lib hexReq = Inr req"
  obtains resp dec where
    "fst (Authorize ops env (Some req) (is_store st)) = Inr (resp, dec)"
    "answers env req resp dec"
    "HandleHex lib (Some ops) env hexReq st =
       (let st' = st\<lparr>is_store := snd (Authorize ops env (Some req) (is_store st))\<rparr> in
        case PackMessageToHex lib (Some resp) of
          Inl e \<Rightarrow> (Inl (Wrapf ''pack response'' e), st')
        | Inr hexResp \<Rightarrow> (Inr (hexResp, resp),
            st'\<lparr>is_audit := audit_offer (issuer_tx req resp (Some dec)) (is_audit st)\<rparr>))"
proof -
  obtain resp dec where
    e: "engine_answer (Some ops) env req (is_store st) =
          ((resp, Some dec), snd (Authorize ops env (Some req) (is_store st)))"
    and a: "fst (Authorize ops env (Some req) (is_store st)) = Inr (resp, dec)"
      "answers env req resp dec" by (rule engine_answer_answers)
  from e have "HandleHex lib (Some ops) env hexReq st =
       (let st' = st\<lparr>is_store := snd (Authorize ops env (Some req) (is_store st))\<rparr> in
        case PackMessageToHex lib (Some resp) of
          Inl e \<Rightarrow> (Inl (Wrapf ''pack response'' e), st')
        | Inr hexResp \<Rightarrow> (Inr (hexResp, resp),
            st'\<lparr>is_audit := audit_offer (issuer_tx req resp (Some dec)) (is_audit st)\<rparr>))"
    by (simp add: HandleHex_def assms Let_def split: sum.split)
  with a that show ?thesis by blast
qed

text \<open>A request that gets a reply has the reply of the engine, and that reply packed.\<close>

lemma HandleHex_replyD:
  assumes "HandleHex lib (Some ops) env hexReq st = (Inr (hexResp, resp), st')"
  obtains req dec where "ParseHexToMessage lib hexReq = Inr req"
    "fst (Authorize ops env (Some req) (is_store st)) = Inr (resp, dec)"
    "answers env req resp dec"
    "PackMessageToHex lib (Some resp) = Inr hexResp"
    "is_store st' = snd (Authorize ops env (Some req) (is_store st))"
    "is_audit st' = audit_offer (issuer_tx req resp (Some dec)) (is_audit st)"
proof -
  obtain req where p: "ParseHexToMessage lib hexReq = Inr req"
    using assms by (cases "ParseHexToMessage lib hexReq") (simp_all add: HandleHex_unparsed)
  obtain r d where h: "fst (Authorize ops env (Some req) (is_store st)) = Inr (r, d)"
    "answers env req r d"
    "HandleHex lib (Some ops) env hexReq st =
       (let st' = st\<lparr>is_store := snd (Authorize ops env (Some req) (is_store st))\<rparr> in
        case PackMessageToHex lib (Some r) of
          Inl e \<Rightarrow> (Inl (Wrapf ''pack response'' e), st')
        | Inr hexResp \<Rightarrow> (Inr (hexResp, r),
            st'\<lparr>is_audit := audit_offer (issuer_tx req r (Some d)) (is_audit st)\<rparr>))"
    using HandleHex_parsed [OF p, where ops = ops and env = env and st = st] by blast
  from h(3) assms have k: "PackMessageToHex lib (Some r) = Inr hexResp" "resp = r"
    "st' = st\<lparr>is_store := snd (Authorize ops env (Some req) (is_store st)),
              is_audit := audit_offer (issuer_tx req r (Some d)) (is_audit st)\<rparr>"
    by (simp_all add: Let_def split: sum.splits)
  have "is_store st' = snd (Authorize ops env (Some req) (is_store st))"
    "is_audit st' = audit_offer (issuer_tx req r (Some d)) (is_audit st)"
    by (simp_all add: k(3))
  with that [OF p] h(1,2) k(1,2) show ?thesis by blast
qed

text \<open>
  The audit record tells the truth about the answer and never shows the card number: its
  status is APPROVED exactly for an approval, it repeats the response code, and it carries an
  authorization code or a decline reason accordingly.
\<close>

lemma answer_code_solid:
  "answers env req resp dec \<Longrightarrow> trim_space (RespCode resp) = RespCode resp \<and> RespCode resp \<noteq> []"
  by (auto simp: answers_def resp_codes is_digit_byte_def intro!: trim_space_digits)

lemma issuer_tx_truthful:
  assumes "answers env req resp dec"
  shows "it_Status (issuer_tx req resp (Some dec)) = ''APPROVED'' \<longleftrightarrow> RespCode resp = RespApproved"
    and "it_ResponseCode (issuer_tx req resp (Some dec)) = Some (RespCode resp)"
    and "it_AuthCode (issuer_tx req resp (Some dec)) =
           (if RespCode resp = RespApproved then Some (AuthRespID resp) else None)"
    and "it_DeclineReason (issuer_tx req resp (Some dec)) = None \<longleftrightarrow> RespCode resp = RespApproved"
    and "it_PANMasked (issuer_tx req resp (Some dec)) = MaskPAN (PAN req)"
  using assms answer_code_solid [OF assms]
  by (auto simp: issuer_tx_def Let_def answers_def resp_codes)

section \<open>Money and replies\<close>

definition reply_code :: "go_error + string \<times> ISOMessage \<Rightarrow> string" where
  "reply_code x = (case x of Inl _ \<Rightarrow> [] | Inr (_, resp) \<Rightarrow> RespCode resp)"

context card_store
begin

lemma handle_money:
  assumes "inv (is_store st)"
    and "HandleHex lib (Some ops) env hexReq st = (Inr (hexResp, resp), st')"
  shows "inv (is_store st') \<and> (\<exists>req. ParseHexToMessage lib hexReq = Inr req \<and>
      moves_as_answered (bal (is_store st)) req (RespCode resp) (bal (is_store st')))"
proof -
  obtain req dec where r: "ParseHexToMessage lib hexReq = Inr req"
    "fst (Authorize ops env (Some req) (is_store st)) = Inr (resp, dec)"
    "is_store st' = snd (Authorize ops env (Some req) (is_store st))"
    using HandleHex_replyD [OF assms(2)] by blast
  with authorize_money [OF assms(1), of env req] show ?thesis by simp
qed

end

end
