(* ===== verification/Tpdu.thy ===== *)
theory Tpdu
  imports Go_Hex
begin

text \<open>
  The framing of the TCP link, from both ends: \<open>sendToIssuer\<close>'s packet and \<open>readTPDUPacket\<close> in
  acquirer/switch.go, \<open>readTPDUFrame\<close> and \<open>writeTPDUFrame\<close> in issuer/tcp_server.go. A frame is a
  2-byte big-endian length, a 5-byte TPDU whose bytes 1 to 4 carry the correlation id, and the
  raw ISO message.

  A connection's input is the bytes that will arrive on it and the error the read after them
  gives, so a read that runs out of bytes in the middle of a frame is visible.
\<close>

unbundle bit_operations_syntax

section \<open>Big-endian integers\<close>

definition put_u16 :: "u16 \<Rightarrow> byte list" where
  "put_u16 w = [ucast (drop_bit 8 w), ucast w]"

definition put_u32 :: "u32 \<Rightarrow> byte list" where
  "put_u32 w = [ucast (drop_bit 24 w), ucast (drop_bit 16 w), ucast (drop_bit 8 w), ucast w]"

fun get_u16 :: "byte list \<Rightarrow> u16" where
  "get_u16 (a # b # _) = (push_bit 8 (ucast a)) OR ucast b"
| "get_u16 _ = 0"

fun get_u32 :: "byte list \<Rightarrow> u32" where
  "get_u32 (a # b # c # d # _) =
     (push_bit 24 (ucast a)) OR (push_bit 16 (ucast b)) OR (push_bit 8 (ucast c)) OR ucast d"
| "get_u32 _ = 0"

lemma length_put [simp]: "length (put_u16 w) = 2" "length (put_u32 v) = 4"
  by (simp_all add: put_u16_def put_u32_def)

lemma get_put_u16 [simp]: "get_u16 (put_u16 w @ bs) = w"
  by (simp add: put_u16_def, rule bit_word_eqI)
    (auto simp: bit_simps)

lemma get_put_u32 [simp]: "get_u32 (put_u32 w @ bs) = w"
proof -
  have "bit (get_u32 (put_u32 w @ bs)) n \<longleftrightarrow> bit w n" if "n < 32" for n
    using that
    by (cases "n < 8"; cases "n < 16"; cases "n < 24") (simp_all add: put_u32_def bit_simps, auto)
  then show ?thesis by (intro bit_word_eqI) simp
qed

section \<open>Reading from a connection\<close>

datatype net_error = EOF | UnexpectedEOF | NetTimeout | NetError string

datatype read_error = Net net_error | Malformed go_error

record conn_in =
  in_bytes :: "byte list"
  in_end :: net_error

text \<open>\<open>io.ReadFull\<close>: all the bytes asked for, or the error and what there was is gone.\<close>

definition ReadFull :: "nat \<Rightarrow> conn_in \<Rightarrow> (net_error + byte list) \<times> conn_in" where
  "ReadFull n c =
     (if n \<le> length (in_bytes c)
      then (Inr (take n (in_bytes c)), c\<lparr>in_bytes := drop n (in_bytes c)\<rparr>)
      else (Inl (if in_end c = EOF \<and> in_bytes c \<noteq> [] then UnexpectedEOF else in_end c),
            c\<lparr>in_bytes := []\<rparr>))"

definition max_packet :: u16 where "max_packet = 8192"

definition err_length :: go_error where "err_length = Errorf ''invalid packet length''"

definition readTPDUPacket :: "conn_in \<Rightarrow> (read_error + byte list) \<times> conn_in" where
  "readTPDUPacket conn =
     (case ReadFull 2 conn of
        (Inl e, conn') \<Rightarrow> (Inl (Net e), conn')
      | (Inr lengthBytes, conn') \<Rightarrow>
          let len = get_u16 lengthBytes in
          if len = 0 \<or> len > max_packet then (Inl (Malformed err_length), conn')
          else (case ReadFull (unat len) conn' of
                  (Inl e, conn'') \<Rightarrow> (Inl (Net e), conn'')
                | (Inr packet, conn'') \<Rightarrow> (Inr packet, conn'')))"

definition readTPDUFrame :: "conn_in \<Rightarrow> (read_error + byte list \<times> string) \<times> conn_in" where
  "readTPDUFrame conn =
     (case ReadFull 2 conn of
        (Inl e, conn') \<Rightarrow> (Inl (Net e), conn')
      | (Inr lengthBytes, conn') \<Rightarrow>
          let len = get_u16 lengthBytes in
          if len = 0 \<or> len > max_packet then (Inl (Malformed err_length), conn')
          else (case ReadFull (unat len) conn' of
                  (Inl e, conn'') \<Rightarrow> (Inl (Net e), conn'')
                | (Inr packet, conn'') \<Rightarrow>
                    if length packet < 5
                    then (Inl (Malformed (Errorf ''packet too short for TPDU'')), conn'')
                    else (Inr (take 5 packet, hex_encode (drop 5 packet)), conn'')))"

section \<open>Writing\<close>

text \<open>The packet \<open>sendToIssuer\<close> builds; the length is cut to 16 bits.\<close>

definition tpdu_header :: "u32 \<Rightarrow> byte list" where
  "tpdu_header corrID = 0x60 # put_u32 corrID"

definition request_packet :: "byte list \<Rightarrow> u32 \<Rightarrow> byte list" where
  "request_packet rawISO corrID =
     (let tpdu = tpdu_header corrID;
          totalLen = length tpdu + length rawISO
      in put_u16 (of_nat totalLen) @ tpdu @ rawISO)"

text \<open>\<open>writeTPDUFrame\<close>: the bytes it hands to the connection.\<close>

definition writeTPDUFrame :: "string \<Rightarrow> byte list \<Rightarrow> go_error + byte list" where
  "writeTPDUFrame hexResp tpdu =
     (case hex_decode hexResp of
        Inl e \<Rightarrow> Inl (Wrapf ''decode response hex failed'' e)
      | Inr respBytes \<Rightarrow>
          let totalLen = length tpdu + length respBytes
          in Inr (put_u16 (of_nat totalLen) @ tpdu @ respBytes))"

text \<open>The correlation id \<open>listenForResponses\<close> reads: bytes 1 to 4 of a packet of at least 5.\<close>

definition packet_corrID :: "byte list \<Rightarrow> u32" where
  "packet_corrID packet = get_u32 (drop 1 packet)"

section \<open>Frames on a stream\<close>

lemma length_tpdu_header [simp]: "length (tpdu_header c) = 5"
  by (simp add: tpdu_header_def)

lemma packet_corrID_header [simp]: "packet_corrID (tpdu_header c @ bs) = c"
  by (simp add: packet_corrID_def tpdu_header_def)

text \<open>A body of 1 to 8192 bytes behind its length is read back, and nothing after it is touched.\<close>

definition frame :: "byte list \<Rightarrow> byte list" where
  "frame body = put_u16 (of_nat (length body)) @ body"

lemma request_packet_frame: "request_packet raw c = frame (tpdu_header c @ raw)"
  by (simp add: request_packet_def frame_def Let_def)

lemma writeTPDUFrame_frame:
  "writeTPDUFrame (hex_encode bs) tpdu = Inr (frame (tpdu @ bs))"
  by (simp add: writeTPDUFrame_def frame_def Let_def)

lemma frame_length_word:
  assumes "0 < n" "n \<le> 8192"
  shows "unat (of_nat n :: u16) = n" "\<not> (of_nat n :: u16) > max_packet" "(of_nat n :: u16) \<noteq> 0"
proof -
  show u: "unat (of_nat n :: u16) = n" using assms by (simp add: unat_of_nat)
  then show "(of_nat n :: u16) \<noteq> 0" using assms(1) by auto
  show "\<not> (of_nat n :: u16) > max_packet"
    using assms u by (simp add: max_packet_def word_less_nat_alt)
qed

lemma ReadFull_append:
  "length bs = n \<Longrightarrow> ReadFull n \<lparr>in_bytes = bs @ rest, in_end = e\<rparr> =
     (Inr bs, \<lparr>in_bytes = rest, in_end = e\<rparr>)"
  by (simp add: ReadFull_def)

lemma get_put_u16_alone [simp]: "get_u16 (put_u16 w) = w"
  using get_put_u16 [of w "[]"] by simp

lemma readTPDUPacket_frame:
  assumes "0 < length body" "length body \<le> 8192"
  shows "readTPDUPacket \<lparr>in_bytes = frame body @ rest, in_end = e\<rparr> =
           (Inr body, \<lparr>in_bytes = rest, in_end = e\<rparr>)"
  using frame_length_word [OF assms]
  by (simp add: readTPDUPacket_def frame_def ReadFull_append Let_def)

lemma readTPDUFrame_frame:
  assumes "5 \<le> length body" "length body \<le> 8192"
  shows "readTPDUFrame \<lparr>in_bytes = frame body @ rest, in_end = e\<rparr> =
           (Inr (take 5 body, hex_encode (drop 5 body)), \<lparr>in_bytes = rest, in_end = e\<rparr>)"
proof -
  have "0 < length body" "body \<noteq> []" using assms(1) by auto
  with frame_length_word [OF this(1) assms(2)] assms show ?thesis
    by (simp add: readTPDUFrame_def frame_def ReadFull_append Let_def)
qed

text \<open>Both directions of the link.\<close>

lemma request_on_the_wire:
  assumes "length raw \<le> 8187"
  shows "readTPDUFrame \<lparr>in_bytes = request_packet raw c @ rest, in_end = e\<rparr> =
           (Inr (tpdu_header c, hex_encode raw), \<lparr>in_bytes = rest, in_end = e\<rparr>)"
  using readTPDUFrame_frame [of "tpdu_header c @ raw" rest e] assms
  by (simp add: request_packet_frame)

lemma response_on_the_wire:
  assumes "length bs \<le> 8187" "writeTPDUFrame (hex_encode bs) (tpdu_header c) = Inr pkt"
  shows "readTPDUPacket \<lparr>in_bytes = pkt @ rest, in_end = e\<rparr> =
           (Inr (tpdu_header c @ bs), \<lparr>in_bytes = rest, in_end = e\<rparr>)"
  using readTPDUPacket_frame [of "tpdu_header c @ bs" rest e] assms
  by (auto simp: writeTPDUFrame_frame)

text \<open>
  A request too long for a packet: the issuer rejects it (and closes the connection) when its
  length still fits 16 bits.
\<close>

lemma oversized_request_rejected:
  assumes "8187 < length raw" "length raw < 65531"
  shows "fst (readTPDUFrame \<lparr>in_bytes = request_packet raw c @ rest, in_end = e\<rparr>) =
           Inl (Malformed err_length)"
proof -
  let ?n = "5 + length raw"
  have u: "unat (of_nat ?n :: u16) = ?n" using assms(2) by (simp only: unat_of_nat) simp
  have "(of_nat ?n :: u16) > max_packet"
    unfolding word_less_nat_alt u using assms(1) by (simp add: max_packet_def)
  then show ?thesis
    by (simp add: readTPDUFrame_def request_packet_def ReadFull_append Let_def)
qed

text \<open>A whole conversation: the frames of a list of bodies are read back in order.\<close>

fun read_packets :: "nat \<Rightarrow> conn_in \<Rightarrow> byte list list \<times> conn_in" where
  "read_packets 0 c = ([], c)"
| "read_packets (Suc n) c =
    (case readTPDUPacket c of
       (Inl _, c') \<Rightarrow> ([], c')
     | (Inr p, c') \<Rightarrow> (let (ps, c'') = read_packets n c' in (p # ps, c'')))"

lemma read_packets_frames:
  assumes "\<forall>b \<in> set bodies. 0 < length b \<and> length b \<le> 8192"
  shows "read_packets (length bodies) \<lparr>in_bytes = concat (map frame bodies) @ rest, in_end = e\<rparr> =
           (bodies, \<lparr>in_bytes = rest, in_end = e\<rparr>)"
  using assms by (induction bodies) (simp_all add: readTPDUPacket_frame)

section \<open>The link's two directions\<close>

text \<open>
  C16. Both directions of the link invert each other, whatever follows on the stream: the issuer
  reads back the very bytes the acquirer framed, with the TPDU that carries the correlation id,
  and the acquirer reads back the answer the issuer framed behind that TPDU, and finds the same
  correlation id in it. Nothing of what follows is consumed.
\<close>

theorem wire_roundtrip:
  assumes "length raw \<le> 8187" "length bs \<le> 8187"
  shows "readTPDUFrame \<lparr>in_bytes = request_packet raw c @ rest, in_end = e\<rparr> =
      (Inr (tpdu_header c, hex_encode raw), \<lparr>in_bytes = rest, in_end = e\<rparr>) \<and>
    (\<exists>pkt. writeTPDUFrame (hex_encode bs) (tpdu_header c) = Inr pkt \<and>
       readTPDUPacket \<lparr>in_bytes = pkt @ rest, in_end = e\<rparr> =
         (Inr (tpdu_header c @ bs), \<lparr>in_bytes = rest, in_end = e\<rparr>) \<and>
       packet_corrID (tpdu_header c @ bs) = c)"
  using request_on_the_wire [OF assms(1)] response_on_the_wire [OF assms(2)]
  by (simp add: writeTPDUFrame_frame)

theorem wire_roundtrip_witness:
  "readTPDUFrame \<lparr>in_bytes = request_packet [1, 2, 3] 0xCAFE @ [9], in_end = EOF\<rparr> =
     (Inr (tpdu_header 0xCAFE, hex_encode [1, 2, 3]), \<lparr>in_bytes = [9], in_end = EOF\<rparr>)"
  using wire_roundtrip [of "[1, 2, 3]" "[]"] by (simp del: hex_encode_simps)

text \<open>
  C17. The limit of the link is exact: of the requests whose length fits the 16 bits of a frame,
  the issuer reads those of at most 8187 bytes and rejects every longer one, whose connection it
  then closes.
\<close>

theorem request_size_limit:
  assumes "length raw < 65531"
  shows "(\<exists>x. fst (readTPDUFrame \<lparr>in_bytes = request_packet raw c @ rest, in_end = e\<rparr>) = Inr x)
     \<longleftrightarrow> length raw \<le> 8187"
proof (cases "length raw \<le> 8187")
  case True
  then show ?thesis using request_on_the_wire [OF True, of c rest e] by simp
next
  case False
  then show ?thesis using oversized_request_rejected [OF _ assms, of c rest e] by simp
qed

theorem request_size_limit_witness:
  "\<not> (\<exists>x. fst (readTPDUFrame \<lparr>in_bytes = request_packet (replicate 8188 0) 1 @ [], in_end = EOF\<rparr>) = Inr x)"
  using request_size_limit [of "replicate 8188 0" 1 "[]" EOF] by simp

end
