(* ===== verification/Switch.thy ===== *)
theory Switch
  imports Tpdu
begin

text \<open>
  internal/acquirer/switch.go, the sequential part of the multiplexing client of the issuer: the
  configuration, the connection pool with starting and stopping, \<open>sendToIssuer\<close> with its retries,
  and a listener's loop over the frames of its connection. Calls and listeners together are the
  subject of \<open>Switch_Mux\<close>.

  The lemmas show when a request is sent and how often it is written, that waiting for the first
  connection ends, what closing leaves, and what a deadline does to a frame half read.
\<close>

section \<open>Configuration\<close>

text \<open>\<open>os.Getenv\<close>: the value of a variable, empty when it is not set.\<close>

type_synonym environ = "string \<Rightarrow> string"

record switch_config =
  sc_issuerAddr :: string
  sc_poolSize :: int
  sc_switchTimeout :: int64

text \<open>\<open>strconv.Atoi\<close> of a set variable when that is a positive number, or the default.\<close>

definition positive_or :: "int \<Rightarrow> string \<Rightarrow> int" where
  "positive_or d v =
     (if v = [] then d
      else case atoi v of Some n \<Rightarrow> if n > 0 then n else d | None \<Rightarrow> d)"

definition NewAcquirerSwitch :: "environ \<Rightarrow> string \<Rightarrow> switch_config" where
  "NewAcquirerSwitch getenv issuerAddr =
     (let poolSize = positive_or 40 (getenv ''ACQUIRER_TCP_POOL'');
          ms = getenv ''SWITCH_TIMEOUT_MS'';
          sec = getenv ''SWITCH_TIMEOUT_SEC'';
          switchTimeoutMS =
            (if ms \<noteq> [] then positive_or 1600 ms
             else if sec \<noteq> []
             then (case atoi sec of Some n \<Rightarrow> if n > 0 then wrap64 (n * 1000) else 1600 | None \<Rightarrow> 1600)
             else 1600)
      in \<lparr>sc_issuerAddr = issuerAddr, sc_poolSize = poolSize,
          sc_switchTimeout = wrap64 (switchTimeoutMS * 1000000)\<rparr>)"

lemma positive_or_positive: "0 < d \<Longrightarrow> 0 < positive_or d v"
  by (auto simp: positive_or_def split: option.splits)

lemma pool_not_empty: "0 < sc_poolSize (NewAcquirerSwitch getenv addr)"
  by (simp add: NewAcquirerSwitch_def Let_def positive_or_positive)

section \<open>The connection pool\<close>

text \<open>A connection is known by a number; the pool holds one or nothing per place.\<close>

type_synonym conn_pool = "nat option list"

definition ensureConnection :: "go_error + nat \<Rightarrow> nat \<Rightarrow> conn_pool \<Rightarrow> bool \<times> conn_pool" where
  "ensureConnection dial poolIndex pool =
     (if pool ! poolIndex \<noteq> None then (True, pool)
      else case dial of
             Inl _ \<Rightarrow> (False, pool)
           | Inr conn \<Rightarrow> (True, pool[poolIndex := Some conn]))"

text \<open>Closing answers with the connections that are closed.\<close>

definition closeConnection :: "nat \<Rightarrow> conn_pool \<Rightarrow> nat list \<times> conn_pool" where
  "closeConnection poolIndex pool =
     (case pool ! poolIndex of
        None \<Rightarrow> ([], pool)
      | Some conn \<Rightarrow> ([conn], pool[poolIndex := None]))"

fun close_from :: "nat list \<Rightarrow> conn_pool \<Rightarrow> nat list \<times> conn_pool" where
  "close_from [] pool = ([], pool)"
| "close_from (i # is) pool =
    (let (closed, pool') = closeConnection i pool;
         (closed', pool'') = close_from is pool'
     in (closed @ closed', pool''))"

definition closeAllConnections :: "conn_pool \<Rightarrow> nat list \<times> conn_pool" where
  "closeAllConnections pool = close_from [0..<length pool] pool"

definition ready :: "conn_pool \<Rightarrow> nat" where
  "ready pool = length (filter (\<lambda>c. c \<noteq> None) pool)"

text \<open>
  The wait of \<open>Start\<close>: it looks at the pool every 200 ms until a connection is there or ten seconds
  have passed, and goes on either way (its error is always nil). \<open>pool k\<close> and \<open>now k\<close> are the pool and
  the clock of round \<open>k\<close>, in nanoseconds; the answer is the number of connections it saw.
\<close>

fun start_loop :: "nat \<Rightarrow> (nat \<Rightarrow> conn_pool) \<Rightarrow> (nat \<Rightarrow> int) \<Rightarrow> nat \<Rightarrow> nat option" where
  "start_loop 0 pool now k = None"
| "start_loop (Suc fuel) pool now k =
    (if now k < 10 * 1000000000 then
       (if ready (pool k) > 0 then Some (ready (pool k)) else start_loop fuel pool now (Suc k))
     else Some 0)"

definition Start :: "(nat \<Rightarrow> conn_pool) \<Rightarrow> (nat \<Rightarrow> int) \<Rightarrow> nat option" where
  "Start pool now = start_loop 51 pool now 0"

lemma start_loop_ends:
  assumes "\<And>k. int k * 200000000 \<le> now k" "51 \<le> k + fuel" "0 < fuel"
  shows "\<exists>n. start_loop fuel pool now k = Some n"
  using assms(2,3)
proof (induction fuel arbitrary: k)
  case (Suc fuel)
  show ?case
  proof (cases "now k < 10 * 1000000000")
    case True
    with assms(1) [of k] have "k < 50" by simp
    with Suc.prems have "51 \<le> Suc k + fuel" "0 < fuel" by simp_all
    from Suc.IH [OF this] True show ?thesis by simp
  qed simp
qed simp

lemma Start_ends: "(\<And>k. int k * 200000000 \<le> now k) \<Longrightarrow> \<exists>n. Start pool now = Some n"
  unfolding Start_def by (rule start_loop_ends) simp_all

lemma ensureConnection_ready:
  "poolIndex < length pool \<Longrightarrow> ensureConnection dial poolIndex pool = (ok, pool') \<Longrightarrow>
   ok = (pool' ! poolIndex \<noteq> None) \<and> length pool' = length pool
   \<and> (\<forall>j. j \<noteq> poolIndex \<longrightarrow> pool' ! j = pool ! j)"
  by (auto simp: ensureConnection_def split: if_splits sum.splits)

lemma close_from_append:
  "close_from (is @ js) pool =
     (let (a, p) = close_from is pool; (b, q) = close_from js p in (a @ b, q))"
  by (induction "is" arbitrary: pool) (auto simp: Let_def split: prod.splits)

lemma closeAll_prefix:
  "n \<le> length pool \<Longrightarrow>
   close_from [0..<n] pool =
     (map the (filter (\<lambda>c. c \<noteq> None) (take n pool)), replicate n None @ drop n pool)"
proof (induction n)
  case (Suc n)
  let ?p = "replicate n None @ drop n pool" and ?q = "replicate (Suc n) None @ drop (Suc n) pool"
  have n: "n < length pool" using Suc.prems by simp
  have d: "drop n pool = pool ! n # drop (Suc n) pool" using n by (rule Cons_nth_drop_Suc [symmetric])
  have at: "?p ! n = pool ! n" by (simp add: nth_append d)
  have q: "replicate n None @ None # drop (Suc n) pool = ?q"
    by (simp only: replicate_Suc append_Cons replicate_append_same [symmetric]) simp
  have up: "?p[n := None] = ?q" unfolding q [symmetric] by (simp add: list_update_append d)
  have same: "?p = ?q" if "pool ! n = None" using q d that by simp
  have "closeConnection n ?p = (map the (filter (\<lambda>c. c \<noteq> None) [pool ! n]), ?q)"
    unfolding closeConnection_def at using up same by (cases "pool ! n") simp_all
  moreover have "close_from [0..<n] pool = (map the (filter (\<lambda>c. c \<noteq> None) (take n pool)), ?p)"
    using Suc by simp
  moreover have "take (Suc n) pool = take n pool @ [pool ! n]"
    using n by (rule take_Suc_conv_app_nth)
  ultimately show ?case by (simp only: upt_Suc_append le0 close_from_append close_from.simps
      Let_def prod.case filter_append map_append append_Nil2)
qed simp

lemma closeAllConnections_eq:
  "closeAllConnections pool = (map the (filter (\<lambda>c. c \<noteq> None) pool), replicate (length pool) None)"
  using closeAll_prefix [of "length pool" pool] by (simp add: closeAllConnections_def)

text \<open>
  \<open>Stop\<close>, once the listeners it tells to end have ended: it closes what the pool holds. The channel
  it tells them through can be closed only once.
\<close>

definition Stop :: "bool \<Rightarrow> conn_pool \<Rightarrow> (nat list \<times> conn_pool) outcome" where
  "Stop shutdownClosed pool =
     (if shutdownClosed then Panic ''close of closed channel'' else Return (closeAllConnections pool))"

lemma Stop_closes_all:
  "Stop False pool = Return (map the (filter (\<lambda>c. c \<noteq> None) pool), replicate (length pool) None)"
  by (simp add: Stop_def closeAllConnections_eq)

section \<open>Sending with retries\<close>

text \<open>
  What an attempt meets: the connections of the pool at that time, how many other requests took
  a turn of the round robin since the last one, and the result of the write.
\<close>

record send_env =
  se_conn :: "nat \<Rightarrow> nat \<Rightarrow> bool"
  se_others :: "nat \<Rightarrow> nat"
  se_write :: "nat \<Rightarrow> go_error option"

definition err_no_conn :: go_error where "err_no_conn = Errorf ''no connection to issuer''"

text \<open>
  The attempts from one on: the error if any, the next index, and the writes made (place in the
  pool and bytes handed to the connection).
\<close>

fun send_loop ::
  "nat \<Rightarrow> send_env \<Rightarrow> nat \<Rightarrow> byte list \<Rightarrow> nat \<Rightarrow> go_error option \<Rightarrow>
   go_error option \<times> nat \<times> (nat \<times> byte list) list" where
  "send_loop 0 env poolSize packet index lastErr =
     (Some (case lastErr of Some e \<Rightarrow> Wrapf ''write failed after 3 attempts'' e
                          | None \<Rightarrow> Errorf ''write failed after 3 attempts: %!w(<nil>)''), index, [])"
| "send_loop (Suc n) env poolSize packet index lastErr =
    (let attempt = 2 - n;
         connIndex = (index + se_others env attempt) mod poolSize;
         index' = (connIndex + 1) mod poolSize
     in if \<not> se_conn env attempt connIndex then
          (if attempt < 2 then send_loop n env poolSize packet index' (Some err_no_conn)
           else (Some err_no_conn, index', []))
        else
          (case se_write env attempt of
             None \<Rightarrow> (None, index', [(connIndex, packet)])
           | Some e \<Rightarrow>
               let (r, i, ws) = send_loop n env poolSize packet index' (Some e)
               in (r, i, (connIndex, packet) # ws)))"

definition sendToIssuer ::
  "send_env \<Rightarrow> nat \<Rightarrow> byte list \<Rightarrow> u32 \<Rightarrow> nat \<Rightarrow> go_error option \<times> nat \<times> (nat \<times> byte list) list" where
  "sendToIssuer env poolSize rawISO corrID index =
     send_loop 3 env poolSize (request_packet rawISO corrID) index None"

lemma send_loop_writes:
  assumes "send_loop n env poolSize packet index lastErr = (r, i, ws)" "0 < poolSize"
  shows "length ws \<le> n \<and> (\<forall>(k, p) \<in> set ws. k < poolSize \<and> p = packet) \<and> (r = None \<longrightarrow> ws \<noteq> [])"
  using assms
proof (induction n arbitrary: index lastErr r i ws)
  case (Suc n)
  show ?case
    using Suc.prems Suc.IH
    by (fastforce simp: Let_def split: if_splits option.splits prod.splits)
qed simp

text \<open>The round robin: with no others between, the attempts use consecutive places.\<close>

lemma sendToIssuer_attempts:
  assumes "\<And>k. se_others env k = 0" "index < poolSize"
  defines "at \<equiv> \<lambda>k. (index + k) mod poolSize"
  defines "good \<equiv> \<lambda>k. se_conn env k (at k) \<and> se_write env k = None"
  shows "fst (sendToIssuer env poolSize raw c index) = None \<longleftrightarrow> good 0 \<or> good 1 \<or> good 2"
    and "good 0 \<Longrightarrow> sendToIssuer env poolSize raw c index =
           (None, (index + 1) mod poolSize, [(index, request_packet raw c)])"
  using assms(2)
  by (auto simp: sendToIssuer_def numeral_3_eq_3 Let_def assms(1) at_def good_def mod_Suc_eq
      mod_add_left_eq numeral_2_eq_2 split: option.splits prod.splits)

text \<open>
  C18. A request is handed to a connection exactly when one of the three attempts meets a
  connection that takes it: attempt \<open>k\<close> tries the place \<open>k\<close> after the first one (with no other
  sender between), at most three writes happen, each of the whole packet, and success means a
  write.
\<close>

theorem send_attempts:
  assumes "\<forall>k. se_others env k = 0" "index < poolSize"
  shows "(fst (sendToIssuer env poolSize raw c index) = None \<longleftrightarrow>
      (\<exists>k < 3. se_conn env k ((index + k) mod poolSize) \<and> se_write env k = None)) \<and>
    (case sendToIssuer env poolSize raw c index of
       (r, i, ws) \<Rightarrow> length ws \<le> 3 \<and> (r = None \<longrightarrow> ws \<noteq> []) \<and>
         (\<forall>(k, p) \<in> set ws. k < poolSize \<and> p = request_packet raw c))"
proof -
  obtain r i ws where s: "sendToIssuer env poolSize raw c index = (r, i, ws)" by (metis prod_cases3)
  have "0 < poolSize" using assms(2) by simp
  with send_loop_writes s have "length ws \<le> 3 \<and> (r = None \<longrightarrow> ws \<noteq> []) \<and>
      (\<forall>(k, p) \<in> set ws. k < poolSize \<and> p = request_packet raw c)"
    unfolding sendToIssuer_def by blast
  moreover have "(\<exists>k < 3. P k) \<longleftrightarrow> P 0 \<or> P 1 \<or> P 2" for P :: "nat \<Rightarrow> bool"
    by (auto simp: numeral_3_eq_3 less_Suc_eq numeral_2_eq_2)
  ultimately show ?thesis using sendToIssuer_attempts(1) [of env index poolSize raw c] assms s by simp
qed

theorem send_attempts_witness:
  "fst (sendToIssuer \<lparr>se_conn = (\<lambda>_ i. i = 1), se_others = (\<lambda>_. 0), se_write = (\<lambda>_. None)\<rparr> 2 [1] 7 0) = None"
  using send_attempts [of "\<lparr>se_conn = (\<lambda>_ i. i = 1), se_others = (\<lambda>_. 0), se_write = (\<lambda>_. None)\<rparr>" 0 2 "[1]" 7]
  by (auto intro!: exI [of _ "1 :: nat"])

section \<open>Listening\<close>

text \<open>
  One turn of the loop in \<open>listenForResponses\<close>, from the read: keep listening after the 60 second
  deadline, give the connection up after any other error, or route a packet.
\<close>

datatype listen_next = Again | GotPacket "byte list" | GiveUp read_error

definition listen_read :: "conn_in \<Rightarrow> listen_next \<times> conn_in" where
  "listen_read conn =
     (case readTPDUPacket conn of
        (Inl e, conn') \<Rightarrow> (if e = Net NetTimeout then Again else GiveUp e, conn')
      | (Inr packet, conn') \<Rightarrow> (GotPacket packet, conn'))"

text \<open>Answers that arrive whole are routed whole, whatever follows them.\<close>

lemma listen_read_frame:
  "0 < length body \<Longrightarrow> length body \<le> 8192 \<Longrightarrow>
   listen_read \<lparr>in_bytes = frame body @ rest, in_end = e\<rparr> =
     (GotPacket body, \<lparr>in_bytes = rest, in_end = e\<rparr>)"
  by (simp add: listen_read_def readTPDUPacket_frame)

text \<open>
  C29. A deadline that falls inside a frame loses what was read of it: the listener goes on
  listening as after a quiet minute, the bytes of the frame that had arrived are gone, and the
  next read takes the middle of the frame for a length.
\<close>

theorem deadline_loses_bytes:
  assumes "0 < length body" "length body \<le> 8192" "n < length (frame body)"
  shows "listen_read \<lparr>in_bytes = take n (frame body), in_end = NetTimeout\<rparr> =
           (Again, \<lparr>in_bytes = [], in_end = NetTimeout\<rparr>)"
proof (cases "n < 2")
  case True
  then have "ReadFull 2 \<lparr>in_bytes = take n (frame body), in_end = NetTimeout\<rparr> =
      (Inl NetTimeout, \<lparr>in_bytes = [], in_end = NetTimeout\<rparr>)" by (simp add: ReadFull_def min_def)
  then show ?thesis by (simp add: listen_read_def readTPDUPacket_def)
next
  case False
  have body: "frame body = put_u16 (of_nat (length body)) @ body" by (simp add: frame_def)
  have t: "take n (frame body) = put_u16 (of_nat (length body)) @ take (n - 2) body"
    using False by (simp add: body)
  have "n - 2 < length body" using assms(3) False by (simp add: body)
  then show ?thesis using frame_length_word [OF assms(1,2)]
    by (simp add: t listen_read_def readTPDUPacket_def ReadFull_append Let_def)
      (simp add: ReadFull_def)
qed

theorem deadline_loses_bytes_witness:
  "listen_read \<lparr>in_bytes = take 4 (request_packet [48, 50] 1), in_end = NetTimeout\<rparr> =
     (Again, \<lparr>in_bytes = [], in_end = NetTimeout\<rparr>)"
  using deadline_loses_bytes [of "tpdu_header 1 @ [48, 50]" 4]
  by (simp add: request_packet_frame frame_def)

text \<open>
  With the correlation id 1, the rest of a frame cut after its length and two bytes of the TPDU
  reads as a length of 0: the connection is given up and the answer never arrives.
\<close>

lemma listen_desync_example:
  "readTPDUPacket \<lparr>in_bytes = drop 4 (request_packet [48, 50] 1), in_end = EOF\<rparr> =
     (Inl (Malformed err_length), \<lparr>in_bytes = [1, 48, 50], in_end = EOF\<rparr>)"
  by (simp add: request_packet_def tpdu_header_def put_u16_def put_u32_def readTPDUPacket_def
      ReadFull_def Let_def)

section \<open>The listener's loops\<close>

text \<open>
  \<open>listenForResponses\<close> over its turns: each has the shutdown flag, the bytes that arrive before its
  read ends, and the error the read meets when they are not enough. Bytes a read leaves are there
  for the next. The result: the packets long enough to route, in order, and the error that ended
  the loop, if one did.
\<close>

fun listenForResponses ::
  "(bool \<times> byte list \<times> net_error) list \<Rightarrow> byte list \<Rightarrow> byte list list \<times> read_error option" where
  "listenForResponses [] buf = ([], None)"
| "listenForResponses ((stop, arrived, e) # turns) buf =
    (if stop then ([], None)
     else case listen_read \<lparr>in_bytes = buf @ arrived, in_end = e\<rparr> of
       (Again, conn) \<Rightarrow> listenForResponses turns (in_bytes conn)
     | (GiveUp err, conn) \<Rightarrow> ([], Some err)
     | (GotPacket packet, conn) \<Rightarrow>
         let (ps, r) = listenForResponses turns (in_bytes conn)
         in (if length packet < 5 then ps else packet # ps, r))"

text \<open>
  One turn of \<open>issuerListener\<close>: stop, sleep two seconds and try again (without a connection, or
  after closing one that failed), or listen again.
\<close>

datatype listener_next = Stopped | SleepRetry | ListenAgain

definition issuerListener_turn ::
  "bool \<Rightarrow> go_error + nat \<Rightarrow> read_error option \<Rightarrow> nat \<Rightarrow> conn_pool \<Rightarrow> listener_next \<times> nat list \<times> conn_pool" where
  "issuerListener_turn stop dial listen poolIndex pool =
     (if stop then (Stopped, [], pool)
      else case ensureConnection dial poolIndex pool of
        (False, pool') \<Rightarrow> (SleepRetry, [], pool')
      | (True, pool') \<Rightarrow>
          (case listen of
             None \<Rightarrow> (ListenAgain, [], pool')
           | Some _ \<Rightarrow> (let (closed, pool'') = closeConnection poolIndex pool'
                       in (SleepRetry, closed, pool''))))"

text \<open>
  Frames that arrive whole, any number per turn or none, are all handed over in order: a quiet
  minute between them changes nothing.
\<close>

lemma listen_frames:
  assumes "\<forall>b \<in> set bodies. 5 \<le> length b \<and> length b \<le> 8192"
    and "length turns = length bodies" "\<forall>t \<in> set turns. \<not> fst t \<and> fst (snd t) = []"
  shows "listenForResponses turns (concat (map frame bodies)) = (bodies, None)"
  using assms
proof (induction bodies arbitrary: turns)
  case (Cons b bodies)
  obtain t0 rest where t0: "turns = t0 # rest" using Cons.prems(2) by (cases turns) simp_all
  have "\<not> fst t0" "fst (snd t0) = []" using Cons.prems(3) by (simp_all add: t0)
  then obtain e where e: "t0 = (False, [], e)" by (metis prod.collapse)
  have b: "0 < length b" "length b \<le> 8192" "\<not> length b < 5" using Cons.prems(1) by auto
  have "listenForResponses rest (concat (map frame bodies)) = (bodies, None)"
    by (rule Cons.IH) (use Cons.prems in \<open>simp_all add: t0\<close>)
  moreover have "listen_read \<lparr>in_bytes = concat (map frame (b # bodies)) @ [], in_end = e\<rparr> =
      (GotPacket b, \<lparr>in_bytes = concat (map frame bodies), in_end = e\<rparr>)"
    using listen_read_frame [OF b(1,2), of "concat (map frame bodies)" e] by simp
  ultimately show ?case unfolding t0 e listenForResponses.simps using b(3) by simp
qed simp

lemma listen_quiet: "listenForResponses ((False, [], NetTimeout) # turns) [] = listenForResponses turns []"
  by (simp add: listen_read_def readTPDUPacket_def ReadFull_def)

text \<open>A turn leaves every other place alone, and its own empty only when it will dial again.\<close>

lemma issuerListener_turn_pool:
  assumes "poolIndex < length pool" "issuerListener_turn stop dial listen poolIndex pool = (nxt, closed, pool')"
  shows "length pool' = length pool \<and> (\<forall>j. j \<noteq> poolIndex \<longrightarrow> pool' ! j = pool ! j) \<and>
    (nxt = ListenAgain \<longrightarrow> pool' ! poolIndex \<noteq> None) \<and> (nxt = SleepRetry \<longrightarrow> pool' ! poolIndex = None)"
proof -
  obtain ok p where e: "ensureConnection dial poolIndex pool = (ok, p)" by force
  from ensureConnection_ready [OF assms(1) e] assms e show ?thesis
    by (cases ok; cases listen)
      (auto simp: issuerListener_turn_def closeConnection_def split: if_splits option.splits)
qed

end
