(* ===== verification/Tx_Repo.thy ===== *)
theory Tx_Repo
  imports Audit_Log
begin

text \<open>
  internal/store/postgres/transaction.go: the two transaction tables. A row's id is a version 7
  UUID the method generates itself, which can fail (\<open>uuid\<close>); it is a primary key, so a second
  insertion of the same id is an error. The issuer's list clamps its page, the acquirer's does
  not and leaves a negative LIMIT or OFFSET to the server, which rejects it.
\<close>

type_synonym acq_txs = "AcquirerTransaction list"
type_synonym iss_txs = "IssuerTransaction list"

section \<open>The acquirer's table\<close>

definition sql_insert_acq :: "query_env \<Rightarrow> AcquirerTransaction \<Rightarrow> acq_txs \<Rightarrow> (go_error + time \<times> time) \<times> acq_txs" where
  "sql_insert_acq q tx t =
     (if q_id q \<in> at_ID ` set t then (Inl err_unique, t)
      else (Inr (q_now q, q_now q),
            t @ [tx\<lparr>at_ID := q_id q, at_CreatedAt := q_now q, at_UpdatedAt := q_now q\<rparr>]))"

definition CreateAcquirerTransaction ::
  "go_error option \<Rightarrow> query_env \<Rightarrow> AcquirerTransaction option \<Rightarrow> acq_txs \<Rightarrow>
   (go_error + AcquirerTransaction) \<times> acq_txs" where
  "CreateAcquirerTransaction uuid q tx t =
     (case tx of
        None \<Rightarrow> (Inl (Errorf ''transaction is nil''), t)
      | Some tx \<Rightarrow>
          (case uuid of
             Some e \<Rightarrow> (Inl (Wrapf ''generate uuid'' e), t)
           | None \<Rightarrow>
               (case exec_stmt q (sql_insert_acq q tx) t of
                  (Inl e, t') \<Rightarrow> (Inl (Wrapf ''insert acquirer transaction'' e), t')
                | (Inr (cr, up), t') \<Rightarrow>
                    (Inr (tx\<lparr>at_ID := q_id q, at_CreatedAt := cr, at_UpdatedAt := up\<rparr>), t'))))"

definition UpdateAcquirerTransactionStatus ::
  "query_env \<Rightarrow> string \<Rightarrow> string \<Rightarrow> string option \<Rightarrow> string option \<Rightarrow> acq_txs \<Rightarrow>
   (go_error + unit) \<times> acq_txs" where
  "UpdateAcquirerTransactionStatus q i status rc respHex t =
     (case exec_stmt q (\<lambda>t. (Inr (rows_affected (\<lambda>r. at_ID r = i) t),
              update_where (\<lambda>r. at_ID r = i)
                (\<lambda>r. r\<lparr>at_Status := status, at_ResponseCode := rc, at_ResponseHex := respHex,
                       at_UpdatedAt := q_now q\<rparr>) t)) t of
        (Inl e, t') \<Rightarrow> (Inl (Wrapf ''update acquirer transaction'' e), t')
      | (Inr n, t') \<Rightarrow>
          if n \<noteq> 1 then (Inl (Errorf ''update acquirer transaction: expected 1 row affected''), t')
          else (Inr (), t'))"

definition err_limit :: go_error where "err_limit = Errorf ''LIMIT must not be negative''"
definition err_offset :: go_error where "err_offset = Errorf ''OFFSET must not be negative''"

definition sql_page ::
  "('r \<Rightarrow> time) \<Rightarrow> int \<Rightarrow> int \<Rightarrow> 'r list \<Rightarrow> (go_error + 'r list) \<times> 'r list" where
  "sql_page created limit off t =
     (if limit < 0 then (Inl err_limit, t)
      else if off < 0 then (Inl err_offset, t)
      else (Inr (page_newest created limit off t), t))"

definition ListAcquirerTransactions ::
  "query_env \<Rightarrow> int \<Rightarrow> int \<Rightarrow> acq_txs \<Rightarrow> (go_error + AcquirerTransaction list) \<times> acq_txs" where
  "ListAcquirerTransactions q limit off t =
     (case exec_stmt q (sql_page at_CreatedAt limit off) t of
        (Inl e, t') \<Rightarrow> (Inl (Wrapf ''list acquirer transactions'' e), t')
      | (Inr txs, t') \<Rightarrow> (Inr txs, t'))"

section \<open>The issuer's table\<close>

definition sql_insert_iss :: "query_env \<Rightarrow> IssuerTransaction \<Rightarrow> iss_txs \<Rightarrow> (go_error + time \<times> time) \<times> iss_txs" where
  "sql_insert_iss q tx t =
     (if q_id q \<in> it_ID ` set t then (Inl err_unique, t)
      else (Inr (q_now q, q_now q),
            t @ [tx\<lparr>it_ID := q_id q, it_CreatedAt := q_now q,
                    it_UpdatedAt := q_now q\<rparr>]))"

definition CreateIssuerTransaction ::
  "go_error option \<Rightarrow> query_env \<Rightarrow> IssuerTransaction option \<Rightarrow> iss_txs \<Rightarrow>
   (go_error + IssuerTransaction) \<times> iss_txs" where
  "CreateIssuerTransaction uuid q tx t =
     (case tx of
        None \<Rightarrow> (Inl (Errorf ''transaction is nil''), t)
      | Some tx \<Rightarrow>
          (case uuid of
             Some e \<Rightarrow> (Inl (Wrapf ''generate uuid'' e), t)
           | None \<Rightarrow>
               (case exec_stmt q (sql_insert_iss q tx) t of
                  (Inl e, t') \<Rightarrow> (Inl (Wrapf ''insert issuer transaction'' e), t')
                | (Inr (cr, up), t') \<Rightarrow>
                    (Inr (tx\<lparr>it_ID := q_id q, it_CreatedAt := cr, it_UpdatedAt := up\<rparr>), t'))))"

definition ListIssuerTransactions ::
  "query_env \<Rightarrow> int \<Rightarrow> int \<Rightarrow> iss_txs \<Rightarrow> (go_error + IssuerTransaction list) \<times> iss_txs" where
  "ListIssuerTransactions q limit off t =
     (case exec_stmt q (sql_page it_CreatedAt (clamp_limit limit) (clamp_offset off)) t of
        (Inl e, t') \<Rightarrow> (Inl (Wrapf ''list issuer transactions'' e), t')
      | (Inr txs, t') \<Rightarrow> (Inr txs, t'))"

definition UpdateIssuerTransaction ::
  "query_env \<Rightarrow> string \<Rightarrow> string \<Rightarrow> string option \<Rightarrow> string option \<Rightarrow> string option \<Rightarrow>
   int64 option \<Rightarrow> int64 option \<Rightarrow> int option \<Rightarrow> iss_txs \<Rightarrow> (go_error + unit) \<times> iss_txs" where
  "UpdateIssuerTransaction q i status rc authCode reason before after dur t =
     (case exec_stmt q (\<lambda>t. (Inr (rows_affected (\<lambda>r. it_ID r = i) t),
              update_where (\<lambda>r. it_ID r = i)
                (\<lambda>r. r\<lparr>it_Status := status, it_ResponseCode := rc, it_AuthCode := authCode,
                       it_DeclineReason := reason, it_BalanceBefore := before,
                       it_BalanceAfter := after, it_ProcessingTime := dur,
                       it_UpdatedAt := q_now q\<rparr>) t)) t of
        (Inl e, t') \<Rightarrow> (Inl (Wrapf ''update issuer transaction'' e), t')
      | (Inr n, t') \<Rightarrow>
          if n \<noteq> 1 then (Inl (Errorf ''update issuer transaction: expected 1 row affected''), t')
          else (Inr (), t'))"

section \<open>The workers' stores\<close>

text \<open>A record without the id and the timestamps the table adds.\<close>

definition strip_acq :: "AcquirerTransaction \<Rightarrow> AcquirerTransaction" where
  "strip_acq tx = tx\<lparr>at_ID := [], at_CreatedAt := 0, at_UpdatedAt := 0\<rparr>"

definition strip_iss :: "IssuerTransaction \<Rightarrow> IssuerTransaction" where
  "strip_iss tx = tx\<lparr>it_ID := [], it_CreatedAt := 0, it_UpdatedAt := 0\<rparr>"

definition acq_rows :: "acq_txs \<Rightarrow> AcquirerTransaction multiset" where
  "acq_rows t = image_mset strip_acq (mset t)"

definition iss_rows :: "iss_txs \<Rightarrow> IssuerTransaction multiset" where
  "iss_rows t = image_mset strip_iss (mset t)"

text \<open>
  \<open>auditWorker\<close> calls the repository with each record it receives; the fate of the id generation
  is part of the environment (\<open>q_acquire\<close>).
\<close>

definition acq_create ::
  "query_env \<Rightarrow> AcquirerTransaction \<Rightarrow> acq_txs \<Rightarrow> (go_error + AcquirerTransaction) \<times> acq_txs" where
  "acq_create q tx t = CreateAcquirerTransaction (q_acquire q) q (Some tx) t"

definition iss_create ::
  "query_env \<Rightarrow> IssuerTransaction \<Rightarrow> iss_txs \<Rightarrow> (go_error + IssuerTransaction) \<times> iss_txs" where
  "iss_create q tx t = CreateIssuerTransaction (q_acquire q) q (Some tx) t"

interpretation acq_audit: audit_store acq_create strip_acq acq_rows
  by unfold_locales
    (auto simp: acq_create_def CreateAcquirerTransaction_def exec_stmt_def sql_insert_acq_def
      acq_rows_def strip_acq_def split: option.splits fault.splits if_splits)

interpretation iss_audit: audit_store iss_create strip_iss iss_rows
  by unfold_locales
    (auto simp: iss_create_def CreateIssuerTransaction_def exec_stmt_def sql_insert_iss_def
      iss_rows_def strip_iss_def split: option.splits fault.splits if_splits)

section \<open>The audit trail\<close>

definition ex_record :: IssuerTransaction where
  "ex_record = \<lparr>it_ID = [], it_STAN = ''000001'', it_RRN = None, it_MTI = ''0100'',
     it_PANMasked = ''4539'', it_Amount = 1500, it_CurrencyCode = ''949'', it_Status = ''APPROVED'',
     it_ResponseCode = Some ''00'', it_AuthCode = None, it_DeclineReason = None,
     it_BalanceBefore = None, it_BalanceAfter = None, it_ProcessingTime = None,
     it_CreatedAt = 0, it_UpdatedAt = 0\<rparr>"

lemma ex_audit: "\<exists>s. audit_run iss_create [] [Queued ex_record, Taken ex_record, Wrote ex_record] s"
proof -
  let ?S = "\<lambda>c b t. \<lparr>au_ch = c, au_busy = b, au_table = t\<rparr>"
  let ?q = "\<lparr>q_acquire = None, q_fault = Done, q_now = 0, q_id = ''r1''\<rparr>"
  note go = audit_run.step [where create = iss_create and ?t0.0 = "[]"]
  have 1: "audit_run iss_create [] [Queued ex_record] (?S [ex_record] [] [])"
    using go [OF audit_run.start audit_step.queue] by (simp add: audit_offer_def audit_capacity_def)
  have 2: "audit_run iss_create [] [Queued ex_record, Taken ex_record] (?S [] [ex_record] [])"
    using go [OF 1 audit_step.receive [where tx = ex_record and rest = "[]"]] by (simp add: audit_workers_def)
  have "\<exists>r t. iss_create ?q ex_record [] = (Inr r, t)"
    by (simp add: iss_create_def CreateIssuerTransaction_def exec_stmt_def sql_insert_iss_def)
  then obtain r t where ins: "iss_create ?q ex_record [] = (Inr r, t)" by blast
  have "audit_step iss_create (Wrote ex_record) (?S [] [ex_record] []) (?S [] [] t)"
    using audit_step.insert_ok [where s = "?S [] [ex_record] []" and xs = "[]" and ys = "[]" and
        tx = ex_record and create = iss_create and q = ?q and r = r and t = t] ins by simp
  from go [OF 2 this] show ?thesis by auto
qed

text \<open>
  C21. What becomes of the issuer's audit records: every record a handler offered is waiting, being
  written, written, lost to a failed insertion, or was dropped, and only while the channel was full,
  with 1000 records queued that no worker had taken; never more than 1000 wait and three are being
  written; and the table has gained one row for each written record, and nothing else but possibly
  rows for failed records whose insertion committed before its reply was lost. The program itself
  keeps no trace of the dropped and the failed ones.
\<close>

theorem audit_accounting:
  assumes "audit_run iss_create t0 evs s"
  shows "length (au_ch s) \<le> 1000 \<and> length (au_busy s) \<le> 3 \<and>
    offered_in evs = mset (au_ch s) + mset (au_busy s) + wrote_in evs + failed_in evs + dropped_in evs \<and>
    (\<forall>pre tx post. evs = pre @ Dropped tx # post \<longrightarrow>
       size (queued_in pre) = 1000 + size (taken_in pre)) \<and>
    (\<exists>extra. extra \<subseteq># failed_in evs \<and>
       iss_rows (au_table s) =
         iss_rows t0 + image_mset strip_iss (wrote_in evs) + image_mset strip_iss extra)"
  using audit_run_account [OF assms] iss_audit.audit_rows [OF assms] dropped_when_full [OF assms]
  by (simp add: audit_account_def audit_capacity_def audit_workers_def offered_in_def)

theorem audit_accounting_witness:
  "\<exists>s. audit_run iss_create [] [Queued ex_record, Taken ex_record, Wrote ex_record] s \<and>
     iss_rows (au_table s) = {#strip_iss ex_record#}"
proof -
  obtain s where run: "audit_run iss_create [] [Queued ex_record, Taken ex_record, Wrote ex_record] s"
    using ex_audit by blast
  from audit_accounting [OF run] have "iss_rows (au_table s) = {#strip_iss ex_record#}"
    by (auto simp: iss_rows_def)
  with run show ?thesis by blast
qed

end
