(* ===== verification/Issuer_Server.thy ===== *)
theory Issuer_Server
  imports Issuer_Service Switch Tx_Repo
begin

text \<open>
  internal/issuer/tcp_server.go: the settings of \<open>ServeTCP\<close>, and \<open>handleConn\<close> with the worker
  pool all connections share, as a step relation. A frame that was read waits for a place in
  the pool: it gets one, or is dropped when the wait runs out, which it may even when a place has
  become free at that moment. A job in the pool checks its
  deadline, runs \<open>HandleHex\<close>, checks the deadline again, and writes the answer behind the TPDU
  it came with; whatever happens it gives its place back.

  Each job runs under its own environment (database fate, clock, random bytes). Jobs interleave
  freely; \<open>HandleHex\<close> is one step: a request is one database statement, or a lookup of an id that
  never changes and one statement, and \<open>Concurrent\<close> shows that this makes it atomic.
\<close>

section \<open>Settings\<close>

record issuer_settings =
  st_workerPoolSize :: int
  st_acquireTimeout :: int64
  st_requestTimeout :: int64

definition issuer_settings_of :: "environ \<Rightarrow> issuer_settings" where
  "issuer_settings_of getenv =
     \<lparr>st_workerPoolSize = positive_or 1000 (getenv ''ISSUER_WORKER_POOL''),
      st_acquireTimeout = wrap64 (positive_or 2 (getenv ''WORKER_ACQUIRE_TIMEOUT_SEC'') * 1000000000),
      st_requestTimeout = wrap64 (positive_or 3 (getenv ''REQUEST_TIMEOUT_SEC'') * 1000000000)\<rparr>"

lemma worker_pool_positive: "0 < st_workerPoolSize (issuer_settings_of getenv)"
  by (simp add: issuer_settings_of_def positive_or_positive)

section \<open>Jobs and the pool\<close>

record job =
  j_conn :: nat
  j_tpdu :: "byte list"
  j_req :: string

datatype running = Fresh job | Handled job string ISOMessage

record 's server =
  sv_pool :: "running list"
  sv_issuer :: "'s issuer"

datatype server_event =
    Admitted job
  | Refused job
  | Expired job
  | HandleError job go_error
  | Answered job string ISOMessage
  | LateAnswer job string ISOMessage
  | Replied job string "byte list"
  | WriteError job go_error

text \<open>\<open>writeTPDUFrame\<close> on a connection: the frame when the write succeeds.\<close>

definition write_answer :: "go_error option \<Rightarrow> job \<Rightarrow> string \<Rightarrow> go_error + byte list" where
  "write_answer wr j hexResp =
     (case writeTPDUFrame hexResp (j_tpdu j) of
        Inl e \<Rightarrow> Inl e
      | Inr pkt \<Rightarrow> (case wr of Some e \<Rightarrow> Inl e | None \<Rightarrow> Inr pkt))"

inductive server_step ::
  "'m iso_lib \<Rightarrow> 's CardStore \<Rightarrow> nat \<Rightarrow> server_event \<Rightarrow> 's server \<Rightarrow> 's server \<Rightarrow> bool"
  for lib ops cap where
  admit: "length (sv_pool s) < cap \<Longrightarrow>
    server_step lib ops cap (Admitted j) s (s\<lparr>sv_pool := sv_pool s @ [Fresh j]\<rparr>)"
| refuse: "server_step lib ops cap (Refused j) s s"
| expired: "sv_pool s = xs @ Fresh j # ys \<Longrightarrow>
    server_step lib ops cap (Expired j) s (s\<lparr>sv_pool := xs @ ys\<rparr>)"
| handle_err: "sv_pool s = xs @ Fresh j # ys \<Longrightarrow>
    HandleHex lib (Some ops) env (j_req j) (sv_issuer s) = (Inl e, st) \<Longrightarrow>
    server_step lib ops cap (HandleError j e) s (s\<lparr>sv_pool := xs @ ys, sv_issuer := st\<rparr>)"
| handle: "sv_pool s = xs @ Fresh j # ys \<Longrightarrow>
    HandleHex lib (Some ops) env (j_req j) (sv_issuer s) = (Inr (hexResp, resp), st) \<Longrightarrow>
    server_step lib ops cap (Answered j hexResp resp) s
      (s\<lparr>sv_pool := xs @ Handled j hexResp resp # ys, sv_issuer := st\<rparr>)"
| late: "sv_pool s = xs @ Handled j hexResp resp # ys \<Longrightarrow>
    server_step lib ops cap (LateAnswer j hexResp resp) s (s\<lparr>sv_pool := xs @ ys\<rparr>)"
| write_ok: "sv_pool s = xs @ Handled j hexResp resp # ys \<Longrightarrow>
    write_answer wr j hexResp = Inr pkt \<Longrightarrow>
    server_step lib ops cap (Replied j hexResp pkt) s (s\<lparr>sv_pool := xs @ ys\<rparr>)"
| write_err: "sv_pool s = xs @ Handled j hexResp resp # ys \<Longrightarrow>
    write_answer wr j hexResp = Inl e \<Longrightarrow>
    server_step lib ops cap (WriteError j e) s (s\<lparr>sv_pool := xs @ ys\<rparr>)"

inductive_cases server_stepE: "server_step lib ops cap ev s s'"

inductive server_run ::
  "'m iso_lib \<Rightarrow> 's CardStore \<Rightarrow> nat \<Rightarrow> 's issuer \<Rightarrow> server_event list \<Rightarrow> 's server \<Rightarrow> bool"
  for lib ops cap st0 where
  start: "server_run lib ops cap st0 [] \<lparr>sv_pool = [], sv_issuer = st0\<rparr>"
| step: "server_run lib ops cap st0 evs s \<Longrightarrow> server_step lib ops cap ev s s' \<Longrightarrow>
    server_run lib ops cap st0 (evs @ [ev]) s'"

text \<open>
  The loop of \<open>handleConn\<close> over one connection: the jobs it hands to the pool in order, until a read
  fails and the connection is closed. The fuel is the number of frames looked at.
\<close>

fun read_jobs :: "nat \<Rightarrow> nat \<Rightarrow> conn_in \<Rightarrow> job list \<times> read_error option" where
  "read_jobs 0 conn c = ([], None)"
| "read_jobs (Suc n) conn c =
    (case readTPDUFrame c of
       (Inl e, _) \<Rightarrow> ([], Some e)
     | (Inr (tpdu, hexReq), c') \<Rightarrow>
         let (js, r) = read_jobs n conn c'
         in (\<lparr>j_conn = conn, j_tpdu = tpdu, j_req = hexReq\<rparr> # js, r))"

text \<open>The requests a switch wrote come out as jobs, in order, each with its own TPDU.\<close>

lemma read_jobs_requests:
  assumes "\<forall>(c, raw) \<in> set reqs. length raw \<le> 8187"
  shows "read_jobs (Suc (length reqs)) conn
      \<lparr>in_bytes = concat (map (\<lambda>(c, raw). request_packet raw c) reqs), in_end = EOF\<rparr> =
    (map (\<lambda>(c, raw). \<lparr>j_conn = conn, j_tpdu = tpdu_header c, j_req = hex_encode raw\<rparr>) reqs,
     Some (Net EOF))"
  using assms
proof (induction reqs)
  case Nil
  show ?case by (simp add: readTPDUFrame_def ReadFull_def)
next
  case (Cons r reqs)
  obtain c raw where r: "r = (c, raw)" by force
  have "length raw \<le> 8187" using Cons.prems r by simp
  from request_on_the_wire [OF this, of c] Cons show ?case by (simp add: r)
qed

section \<open>A request longer than its length field can say\<close>

text \<open>
  65536 bytes too many leave the length as it would be without them, so the packet is a whole
  frame followed by whatever the request holds there.
\<close>

lemma request_packet_wraps:
  assumes "length pad = 65529 - length bs" "length bs \<le> 65529"
  shows "request_packet (bs @ request_packet bs c @ pad) c = request_packet bs c @ request_packet bs c @ pad"
proof -
  have "length (bs @ request_packet bs c @ pad) = 65536 + length bs"
    using assms by (simp add: request_packet_def)
  then have "(of_nat (5 + length (bs @ request_packet bs c @ pad)) :: u16) = of_nat (5 + length bs)"
    by (simp add: word_of_nat_eq_iff take_bit_eq_mod)
  moreover have "request_packet raw c = put_u16 (of_nat (5 + length raw)) @ tpdu_header c @ raw" for raw
    by (simp add: request_packet_def Let_def)
  ultimately show ?thesis by (metis append.assoc)
qed

text \<open>
  C25. \<open>sendToIssuer\<close> does not check the size of a request, and from 65531 bytes on its length does
  not fit the frame. One request can then reach the issuer as two: for every message \<open>bs\<close> that fits
  a frame there are longer requests, sent by one call under one correlation id, from which the
  loop of the issuer's connection makes two jobs, each with the message \<open>bs\<close> and with that id.
\<close>

theorem long_request_read_twice:
  assumes "length bs \<le> 8187" "length pad = 65529 - length bs"
  shows "fst (read_jobs 2 conn
      \<lparr>in_bytes = request_packet (bs @ request_packet bs corrID @ pad) corrID, in_end = e\<rparr>) =
    replicate 2 \<lparr>j_conn = conn, j_tpdu = tpdu_header corrID, j_req = hex_encode bs\<rparr>"
proof -
  have "length bs \<le> 65529" using assms(1) by simp
  from request_packet_wraps [OF assms(2) this] request_on_the_wire [OF assms(1)] show ?thesis
    by (simp add: numeral_2_eq_2)
qed

theorem long_request_read_twice_witness:
  "length (fst (read_jobs 2 0
      \<lparr>in_bytes = request_packet ([1] @ request_packet [1] 7 @ replicate 65528 0) 7, in_end = EOF\<rparr>)) = 2"
proof -
  have "length (replicate 65528 (0 :: byte)) = 65529 - length [1 :: byte]" by simp
  from long_request_read_twice [OF _ this, of 0 7 EOF] show ?thesis by simp
qed

section \<open>Admission\<close>

lemma server_run_bound: "server_run lib ops cap st0 evs s \<Longrightarrow> length (sv_pool s) \<le> cap"
proof (induction rule: server_run.induct)
  case (step evs s ev s')
  from step.hyps(2) step.IH show ?case by cases auto
qed simp

text \<open>Every place is given back: the pool's occupants are the admitted jobs not yet over.\<close>

definition leaves :: "server_event \<Rightarrow> bool" where
  "leaves ev \<longleftrightarrow> (case ev of Admitted _ \<Rightarrow> False | Refused _ \<Rightarrow> False | Answered _ _ _ \<Rightarrow> False | _ \<Rightarrow> True)"

definition enters :: "server_event \<Rightarrow> bool" where
  "enters ev \<longleftrightarrow> (\<exists>j. ev = Admitted j)"

lemma server_run_places:
  "server_run lib ops cap st0 evs s \<Longrightarrow>
   length (filter enters evs) = length (filter leaves evs) + length (sv_pool s)"
proof (induction rule: server_run.induct)
  case (step evs s ev s')
  from step.hyps(2) step.IH show ?case by cases (auto simp: enters_def leaves_def)
qed simp

section \<open>Replies\<close>

text \<open>
  A written packet is the frame of an answer that \<open>HandleHex\<close> gave to a request admitted from the
  same connection, behind the TPDU of that request.
\<close>

definition answered :: "server_event list \<Rightarrow> job \<Rightarrow> string \<Rightarrow> bool" where
  "answered evs j h \<longleftrightarrow> (\<exists>r. Answered j h r \<in> set evs)"

lemma answered_snoc [simp]:
  "answered (evs @ [ev]) j h \<longleftrightarrow> answered evs j h \<or> (\<exists>r. ev = Answered j h r)"
  by (auto simp: answered_def)

definition replies_ok :: "server_event list \<Rightarrow> 's server \<Rightarrow> bool" where
  "replies_ok evs s \<longleftrightarrow>
     (\<forall>j. Fresh j \<in> set (sv_pool s) \<longrightarrow> Admitted j \<in> set evs) \<and>
     (\<forall>j h r. Handled j h r \<in> set (sv_pool s) \<longrightarrow> Admitted j \<in> set evs \<and> answered evs j h) \<and>
     (\<forall>j h pkt. Replied j h pkt \<in> set evs \<longrightarrow>
        Admitted j \<in> set evs \<and> answered evs j h \<and>
        writeTPDUFrame h (j_tpdu j) = Inr pkt)"

lemma write_answer_frame: "write_answer wr j h = Inr pkt \<Longrightarrow> writeTPDUFrame h (j_tpdu j) = Inr pkt"
  by (auto simp: write_answer_def split: sum.splits option.splits)

lemma server_run_replies: "server_run lib ops cap st0 evs s \<Longrightarrow> replies_ok evs s"
proof (induction rule: server_run.induct)
  case start
  show ?case by (simp add: replies_ok_def answered_def)
next
  case (step evs s ev s')
  from step.hyps(2) step.IH show ?case
    by cases (auto simp: replies_ok_def dest: write_answer_frame)
qed

section \<open>Money under concurrency\<close>

context card_store
begin

text \<open>The engine's lemmas apply to every step, whether its job gets a reply out or not.\<close>

lemma handle_any:
  assumes "inv (is_store st)" "HandleHex lib (Some ops) env hexReq st = (x, st')"
  shows "inv (is_store st') \<and>
    (is_store st' = is_store st \<or>
     (\<exists>req. ParseHexToMessage lib hexReq = Inr req \<and>
        is_store st' = snd (Authorize ops env (Some req) (is_store st))))"
proof (cases "ParseHexToMessage lib hexReq")
  case (Inl e)
  with assms show ?thesis by (simp add: HandleHex_unparsed)
next
  case (Inr req)
  obtain resp dec where
    "HandleHex lib (Some ops) env hexReq st =
       (let st' = st\<lparr>is_store := snd (Authorize ops env (Some req) (is_store st))\<rparr> in
        case PackMessageToHex lib (Some resp) of
          Inl e \<Rightarrow> (Inl (Wrapf ''pack response'' e), st')
        | Inr hexResp \<Rightarrow> (Inr (hexResp, resp),
            st'\<lparr>is_audit := audit_offer (issuer_tx req resp (Some dec)) (is_audit st)\<rparr>))"
    using HandleHex_parsed [OF Inr, where ops = ops and env = env and st = st] by blast
  with assms(2) have "is_store st' = snd (Authorize ops env (Some req) (is_store st))"
    by (auto simp: Let_def split: sum.splits)
  with authorize_money [OF assms(1), of env req] Inr show ?thesis by simp
qed

lemma handle_solvent:
  assumes "inv (is_store st)" "HandleHex lib (Some ops) env hexReq st = (x, st')"
    and "\<forall>p b. bal (is_store st) p = Some b \<longrightarrow> 0 \<le> b"
  shows "\<forall>p b. bal (is_store st') p = Some b \<longrightarrow> 0 \<le> b"
  using handle_any [OF assms(1,2)] authorize_solvent [OF assms(1,3)] assms(3) by metis

lemma server_solvent:
  assumes "server_run lib ops cap st0 evs s" "inv (is_store st0)"
    and "\<forall>p b. bal (is_store st0) p = Some b \<longrightarrow> 0 \<le> b"
  shows "inv (is_store (sv_issuer s)) \<and> (\<forall>p b. bal (is_store (sv_issuer s)) p = Some b \<longrightarrow> 0 \<le> b)"
  using assms
proof (induction rule: server_run.induct)
  case (step evs s ev s')
  then have IH: "inv (is_store (sv_issuer s))"
    "\<forall>p b. bal (is_store (sv_issuer s)) p = Some b \<longrightarrow> 0 \<le> b" by auto
  from step.hyps(2) show ?case
  proof cases
    case (handle_err xs j ys env e st)
    with handle_any [OF IH(1) handle_err(4)] handle_solvent [OF IH(1) handle_err(4) IH(2)]
    show ?thesis by simp
  next
    case (handle xs j ys env h r st)
    with handle_any [OF IH(1) handle(4)] handle_solvent [OF IH(1) handle(4) IH(2)]
    show ?thesis by simp
  qed (use IH in simp_all)
qed simp

end

end
