(* ===== verification/Luhn.thy ===== *)
theory Luhn
  imports Go_Strings
begin

text \<open>
  The two string checks of internal/card/service.go: \<open>isDigits\<close>, over runes, and \<open>luhnValid\<close>,
  over bytes. The lemmas show that on ASCII digits the second is the Luhn test: it notices
  every single wrong digit and every swap of neighbours but 09 and 90, and each payload has
  exactly one check digit.
\<close>

section \<open>The checks\<close>

definition isDigits :: "string \<Rightarrow> bool" where
  "isDigits s = list_all is_digit_rune (runes (bytes_of s))"

text \<open>The loop runs from the last byte to the first; \<open>pan[i] - '0'\<close> is byte arithmetic.\<close>

definition luhn_digit :: "bool \<Rightarrow> nat \<Rightarrow> nat" where
  "luhn_digit alt d = (if alt then (if d * 2 > 9 then d * 2 - 9 else d * 2) else d)"

fun luhn_loop :: "bool \<Rightarrow> nat \<Rightarrow> string \<Rightarrow> nat" where
  "luhn_loop alt s [] = s"
| "luhn_loop alt s (c # cs) =
    luhn_loop (\<not> alt) (s + luhn_digit alt (unat ((of_char c :: byte) - 48))) cs"

definition luhnValid :: "string \<Rightarrow> bool" where
  "luhnValid pan \<longleftrightarrow> luhn_loop False 0 (rev pan) mod 10 = 0"

section \<open>Digits\<close>

lemma isDigits_ascii:
  assumes "\<forall>c \<in> set s. (of_char c :: nat) < 128"
  shows "isDigits s \<longleftrightarrow> ascii_digits s"
proof -
  have "runes (bytes_of s) = bytes_of s"
    using assms by (intro runes_ascii) (auto simp: bytes_of_def)
  then have "isDigits s \<longleftrightarrow> (\<forall>c \<in> set s. is_digit_rune (of_char c))"
    by (simp add: isDigits_def bytes_of_def list_all_iff)
  also have "\<dots> \<longleftrightarrow> (\<forall>c \<in> set s. is_digit_byte c)"
    using assms by (simp add: is_digit_rune_ascii is_digit_byte_def)
  finally show ?thesis by (simp add: ascii_digits_def list_all_iff)
qed

lemma ascii_digits_isDigits: "ascii_digits s \<Longrightarrow> isDigits s"
  by (subst isDigits_ascii) (auto simp: ascii_digits_def list_all_iff is_digit_byte_def)

lemma byte_digit:
  assumes "is_digit_byte c"
  shows "unat ((of_char c :: byte) - 48) = digit_val c"
proof -
  have n: "48 \<le> (of_char c :: nat)" "(of_char c :: nat) \<le> 57"
    using assms by (simp_all add: is_digit_byte_def)
  have w: "(of_char c :: byte) - 48 = of_nat (of_char c - 48)"
    using n(1) by (simp add: of_nat_diff of_nat_of_char)
  have "of_char c - 48 < (256 :: nat)" using n(2) by simp
  then show ?thesis unfolding w by (simp add: digit_val_def unat_of_nat)
qed

section \<open>The weighted sum\<close>

text \<open>The sum of a reversed number, as the loop adds it up from a given parity.\<close>

fun luhn_weight :: "bool \<Rightarrow> nat list \<Rightarrow> nat" where
  "luhn_weight alt [] = 0"
| "luhn_weight alt (d # ds) = luhn_digit alt d + luhn_weight (\<not> alt) ds"

lemma luhn_loop_weight:
  "ascii_digits s \<Longrightarrow> luhn_loop alt n s = n + luhn_weight alt (map digit_val s)"
  by (induction alt n s rule: luhn_loop.induct) (auto simp: byte_digit)

lemma luhn_weight_append:
  "luhn_weight alt (xs @ ys) = luhn_weight alt xs + luhn_weight (alt \<noteq> odd (length xs)) ys"
proof (induction xs arbitrary: alt)
  case (Cons d xs)
  then show ?case by (cases alt; cases "even (length xs)") simp_all
qed simp

lemma luhnValid_weight:
  "ascii_digits s \<Longrightarrow> luhnValid s \<longleftrightarrow> luhn_weight False (map digit_val (rev s)) mod 10 = 0"
  by (simp add: luhnValid_def luhn_loop_weight ascii_digits_def list_all_iff)

lemma luhn_digit_le: "d \<le> 9 \<Longrightarrow> luhn_digit alt d \<le> 9"
  by (auto simp: luhn_digit_def)

lemma upto_9: "d \<le> 9 \<longleftrightarrow> d \<in> {0, 1, 2, 3, 4, 5, 6, 7, 8, 9}" for d :: nat
  by auto

lemma luhn_digit_inj: "d \<le> 9 \<Longrightarrow> e \<le> 9 \<Longrightarrow> luhn_digit alt d = luhn_digit alt e \<Longrightarrow> d = e"
  unfolding luhn_digit_def upto_9 by (cases alt) auto

lemma mod_10_same:
  assumes "(a + x + b) mod 10 = (0 :: nat)" "(a + y + b) mod 10 = 0"
  shows "x mod 10 = y mod 10"
proof -
  have "10 dvd a + x + b" "10 dvd a + y + b" by (rule mod_0_imp_dvd, rule assms)+
  then have "int 10 dvd int (a + x + b)" "int 10 dvd int (a + y + b)"
    by (simp_all only: int_dvd_int_iff)
  then have "int 10 dvd int (a + x + b) - int (a + y + b)" by (rule dvd_diff)
  then have "int 10 dvd int x - int y" by simp
  then have "int x mod int 10 = int y mod int 10" by (simp only: mod_eq_dvd_iff)
  then show ?thesis by (simp only: zmod_int [symmetric] of_nat_eq_iff)
qed

lemma mod_10_cancel: "(a + x + b) mod 10 = 0 \<Longrightarrow> (a + y + b) mod 10 = 0 \<Longrightarrow>
  x \<le> 9 \<Longrightarrow> y \<le> 9 \<Longrightarrow> x = (y :: nat)"
  using mod_10_same [of a x b y] by simp

lemma digit_val_inj: "is_digit_byte c \<Longrightarrow> is_digit_byte d \<Longrightarrow> digit_val c = digit_val d \<Longrightarrow> c = d"
  unfolding is_digit_byte_def digit_val_def
  by (metis eq_diff_iff of_char_eq_iff)

section \<open>What the check notices\<close>

lemma luhn_single_digit:
  assumes "ascii_digits (p @ c # q)" "is_digit_byte d" "c \<noteq> d" "luhnValid (p @ c # q)"
  shows "\<not> luhnValid (p @ d # q)"
proof
  assume v: "luhnValid (p @ d # q)"
  let ?alt = "odd (length q)"
  let ?a = "luhn_weight False (map digit_val (rev q))"
  let ?b = "luhn_weight (\<not> ?alt) (map digit_val (rev p))"
  have w: "luhnValid (p @ e # q) \<longleftrightarrow> (?a + luhn_digit ?alt (digit_val e) + ?b) mod 10 = 0"
    if "is_digit_byte e" for e
    using that assms(1) by (simp add: luhnValid_weight luhn_weight_append add.assoc)
  have c: "is_digit_byte c" using assms(1) by simp
  note sums = w [OF c, THEN iffD1, OF assms(4)] w [OF assms(2), THEN iffD1, OF v]
  have "luhn_digit ?alt (digit_val c) = luhn_digit ?alt (digit_val d)"
    by (rule mod_10_cancel [OF sums]) (simp_all only: luhn_digit_le digit_val_le c assms(2))
  then have "c = d"
    using luhn_digit_inj [of "digit_val c" "digit_val d"] c assms(2) digit_val_inj by simp
  with assms(3) show False by simp
qed

lemma swap_table:
  "list_all (\<lambda>s. list_all (\<lambda>x. list_all (\<lambda>y.
     (luhn_digit s y + luhn_digit (\<not> s) x) mod 10 = (luhn_digit s x + luhn_digit (\<not> s) y) mod 10 \<longrightarrow>
     x = y \<or> x = 0 \<and> y = 9 \<or> x = 9 \<and> y = 0) [0..<10]) [0..<10]) [True, False]"
  by code_simp

lemma swap_sum:
  assumes "x \<le> 9" "y \<le> 9" "(a + (luhn_digit s y + luhn_digit (\<not> s) x) + b) mod 10 = 0"
    "(a + (luhn_digit s x + luhn_digit (\<not> s) y) + b) mod 10 = 0"
  shows "x = y \<or> x = 0 \<and> y = 9 \<or> x = 9 \<and> y = 0"
proof -
  have "s \<in> set [True, False]" "x \<in> set [0..<10]" "y \<in> set [0..<10]" using assms(1,2) by auto
  with swap_table mod_10_same [OF assms(3,4)] show ?thesis unfolding list_all_iff by blast
qed

lemma luhn_transposition:
  assumes "ascii_digits (p @ c # d # q)" "luhnValid (p @ c # d # q)" "luhnValid (p @ d # c # q)"
  shows "c = d \<or> c = CHR ''0'' \<and> d = CHR ''9'' \<or> c = CHR ''9'' \<and> d = CHR ''0''"
proof -
  let ?s = "odd (length q)"
  let ?a = "luhn_weight False (map digit_val (rev q))"
  let ?b = "luhn_weight ?s (map digit_val (rev p))"
  have w: "luhnValid (p @ e # f # q) \<longleftrightarrow>
      (?a + (luhn_digit ?s (digit_val f) + luhn_digit (\<not> ?s) (digit_val e)) + ?b) mod 10 = 0"
    if "is_digit_byte e" "is_digit_byte f" for e f
    using that assms(1) by (simp add: luhnValid_weight luhn_weight_append add.assoc)
  have cd: "is_digit_byte c" "is_digit_byte d" using assms(1) by auto
  have "digit_val c = digit_val d \<or> digit_val c = 0 \<and> digit_val d = 9
      \<or> digit_val c = 9 \<and> digit_val d = 0"
    by (rule swap_sum [OF digit_val_le [OF cd(1)] digit_val_le [OF cd(2)]
          w [OF cd, THEN iffD1, OF assms(2)] w [OF cd(2,1), THEN iffD1, OF assms(3)]])
  moreover have "digit_val (CHR ''0'') = 0" "digit_val (CHR ''9'') = 9"
    "is_digit_byte (CHR ''0'')" "is_digit_byte (CHR ''9'')"
    by (simp_all add: digit_val_def is_digit_byte_def)
  ultimately show ?thesis using cd digit_val_inj by metis
qed

text \<open>Exactly one check digit completes a payload.\<close>

lemma luhn_check_digit:
  assumes "ascii_digits p"
  shows "\<exists>!c. is_digit_byte c \<and> luhnValid (p @ [c])"
proof -
  let ?w = "luhn_weight True (map digit_val (rev p))"
  have v: "luhnValid (p @ [c]) \<longleftrightarrow> (digit_val c + ?w) mod 10 = 0" if "is_digit_byte c" for c
    using that assms by (simp add: luhnValid_weight luhn_digit_def)
  have "?w mod 10 < 10" by simp
  then have "\<exists>d. d \<le> 9 \<and> (d + ?w mod 10) mod 10 = 0"
    by (intro exI [of _ "(10 - ?w mod 10) mod 10"]) (cases "?w mod 10 = 0"; simp)
  then obtain d where d: "d \<le> 9" "(d + ?w) mod 10 = 0" by (auto simp: mod_add_right_eq)
  let ?c = "char_of (48 + d) :: char"
  have c: "is_digit_byte ?c" "digit_val ?c = d"
    using d(1) by (simp_all add: is_digit_byte_def digit_val_def)
  have "luhnValid (p @ [?c])" unfolding v [OF c(1)] c(2) by (rule d(2))
  moreover have "e = ?c" if e: "is_digit_byte e" "luhnValid (p @ [e])" for e
  proof -
    have "(0 + digit_val e + ?w) mod 10 = 0" "(0 + d + ?w) mod 10 = 0"
      using e(2) d(2) unfolding v [OF e(1)] by simp_all
    then have "digit_val e = d"
      by (rule mod_10_cancel) (simp_all only: d(1) digit_val_le e(1))
    with e c digit_val_inj show ?thesis by metis
  qed
  ultimately show ?thesis using c(1) by blast
qed

text \<open>
  C28. The check digit catches the two common slips on any card number of digits that passes:
  changing one digit to another always fails, and exchanging two neighbouring digits fails unless
  they are equal or a 0 and a 9.
\<close>

theorem luhn_detects:
  assumes "ascii_digits s" "luhnValid s"
  shows "(\<forall>i d. i < length s \<longrightarrow> is_digit_byte d \<longrightarrow> d \<noteq> s ! i \<longrightarrow> \<not> luhnValid (s[i := d])) \<and>
    (\<forall>i. Suc i < length s \<longrightarrow> luhnValid (s[i := s ! Suc i, Suc i := s ! i]) \<longrightarrow>
       s ! i = s ! Suc i \<or> {s ! i, s ! Suc i} = {CHR ''0'', CHR ''9''})"
proof (intro conjI allI impI)
  fix i d
  assume i: "i < length s" and d: "is_digit_byte d" "d \<noteq> s ! i"
  have s: "s = take i s @ s ! i # drop (Suc i) s" using i by (rule id_take_nth_drop)
  from luhn_single_digit [of "take i s" "s ! i" "drop (Suc i) s" d] assms d
  show "\<not> luhnValid (s[i := d])" by (simp add: s [symmetric] upd_conv_take_nth_drop [OF i])
next
  fix i
  assume i: "Suc i < length s" and v: "luhnValid (s[i := s ! Suc i, Suc i := s ! i])"
  have s: "s = take i s @ s ! i # s ! Suc i # drop (Suc (Suc i)) s"
    using i by (metis Cons_nth_drop_Suc Suc_lessD append_take_drop_id)
  have "s[i := s ! Suc i, Suc i := s ! i] = take i s @ s ! Suc i # s ! i # drop (Suc (Suc i)) s"
    by (subst (1) s) (use i in \<open>simp add: list_update_append nth_append\<close>)
  with luhn_transposition [of "take i s" "s ! i" "s ! Suc i" "drop (Suc (Suc i)) s"] assms v
  show "s ! i = s ! Suc i \<or> {s ! i, s ! Suc i} = {CHR ''0'', CHR ''9''}"
    by (auto simp: s [symmetric])
qed

theorem luhn_detects_witness: "luhnValid ''4539578763621486'' \<and> \<not> luhnValid ''4539578763621487''"
proof -
  have d: "ascii_digits ''4539578763621486''" by (simp add: is_digit_byte_def)
  have v: "luhnValid ''4539578763621486''"
    unfolding luhnValid_weight [OF d] by (simp add: luhn_digit_def digit_val_def)
  have "\<not> luhnValid ((''4539578763621486'')[15 := CHR ''7''])"
    by (rule luhn_detects [OF d v, THEN conjunct1, rule_format]) (simp_all add: is_digit_byte_def)
  with v show ?thesis by simp
qed

end
