(* ===== verification/Go_Sha256.thy ===== *)
theory Go_Sha256
  imports Prelude
begin

text \<open>
  Go's \<open>crypto/sha256\<close> (\<open>Sum256\<close>), which the card service stores in place of a PIN or a CVV: the
  padding of the message to whole 64-byte blocks, the message schedule and the 64 rounds of
  FIPS 180-4 on 32-bit words.
\<close>

unbundle bit_operations_syntax

text \<open>
  The constants, in decimal: the first 32 bits of the fractional parts of the cube roots of the
  first 64 primes, and of the square roots of the first 8 (lemmas \<open>sha_k_roots\<close>, \<open>sha_h0_roots\<close>).
\<close>

definition sha_k :: "u32 list" where
  "sha_k =
    [1116352408, 1899447441, 3049323471, 3921009573, 961987163, 1508970993, 2453635748, 2870763221,
     3624381080, 310598401, 607225278, 1426881987, 1925078388, 2162078206, 2614888103, 3248222580,
     3835390401, 4022224774, 264347078, 604807628, 770255983, 1249150122, 1555081692, 1996064986,
     2554220882, 2821834349, 2952996808, 3210313671, 3336571891, 3584528711, 113926993, 338241895,
     666307205, 773529912, 1294757372, 1396182291, 1695183700, 1986661051, 2177026350, 2456956037,
     2730485921, 2820302411, 3259730800, 3345764771, 3516065817, 3600352804, 4094571909, 275423344,
     430227734, 506948616, 659060556, 883997877, 958139571, 1322822218, 1537002063, 1747873779,
     1955562222, 2024104815, 2227730452, 2361852424, 2428436474, 2756734187, 3204031479, 3329325298]"

definition sha_h0 :: "u32 list" where
  "sha_h0 =
    [1779033703, 3144134277, 1013904242, 2773480762,
     1359893119, 2600822924, 528734635, 1541459225]"

definition sha_primes :: "nat list" where
  "sha_primes =
    [2, 3, 5, 7, 11, 13, 17, 19, 23, 29, 31, 37, 41, 43, 47, 53,
     59, 61, 67, 71, 73, 79, 83, 89, 97, 101, 103, 107, 109, 113, 127, 131,
     137, 139, 149, 151, 157, 163, 167, 173, 179, 181, 191, 193, 197, 199, 211, 223,
     227, 229, 233, 239, 241, 251, 257, 263, 269, 271, 277, 281, 283, 293, 307, 311]"

text \<open>\<open>k\<close> is the fraction of the \<open>e\<close>-th root of \<open>p\<close>, cut to 32 bits; \<open>r\<close> is the root's integer part.\<close>

definition root_fraction :: "nat \<Rightarrow> nat \<Rightarrow> u32 \<Rightarrow> nat \<Rightarrow> bool" where
  "root_fraction e p k r \<longleftrightarrow>
     (r * 2 ^ 32 + unat k) ^ e \<le> p * (2 ^ 32) ^ e \<and> p * (2 ^ 32) ^ e < (r * 2 ^ 32 + unat k + 1) ^ e"

lemma sha_k_roots:
  "list_all2 (\<lambda>k p. root_fraction 3 p k
     (if p < 8 then 1 else if p < 27 then 2 else if p < 64 then 3 else if p < 125 then 4
      else if p < 216 then 5 else 6)) sha_k sha_primes"
  by (simp add: sha_k_def sha_primes_def root_fraction_def)

lemma sha_h0_roots:
  "list_all2 (\<lambda>k p. root_fraction 2 p k
     (if p < 4 then 1 else if p < 9 then 2 else if p < 16 then 3 else 4)) sha_h0 (take 8 sha_primes)"
  by (simp add: sha_h0_def sha_primes_def root_fraction_def)

definition rotr :: "nat \<Rightarrow> u32 \<Rightarrow> u32" where
  "rotr n w = (drop_bit n w) OR (push_bit (32 - n) w)"

text \<open>A 1 bit, zeros, and the length in bits as 64 bits, to a multiple of 64 bytes.\<close>

definition be_bytes :: "nat \<Rightarrow> nat \<Rightarrow> byte list" where
  "be_bytes k n = map (\<lambda>i. of_nat (n div 256 ^ (k - 1 - i))) [0..<k]"

definition sha_pad :: "byte list \<Rightarrow> byte list" where
  "sha_pad bs =
     bs @ [0x80] @ replicate ((119 - length bs mod 64) mod 64) 0
        @ be_bytes 8 (8 * length bs mod 2 ^ 64)"

definition be_word :: "byte list \<Rightarrow> u32" where
  "be_word bs = foldl (\<lambda>w b. w * 256 + ucast b) 0 bs"

fun chunks :: "nat \<Rightarrow> nat \<Rightarrow> 'a list \<Rightarrow> 'a list list" where
  "chunks 0 k xs = []"
| "chunks (Suc n) k xs = take k xs # chunks n k (drop k xs)"

text \<open>The schedule, kept with the newest word first while it grows from 16 to 64 words.\<close>

fun sha_extend :: "nat \<Rightarrow> u32 list \<Rightarrow> u32 list" where
  "sha_extend 0 ws = ws"
| "sha_extend (Suc n) ws =
    (let w15 = ws ! 14; w2 = ws ! 1;
         s0 = rotr 7 w15 XOR rotr 18 w15 XOR drop_bit 3 w15;
         s1 = rotr 17 w2 XOR rotr 19 w2 XOR drop_bit 10 w2
     in sha_extend n ((ws ! 15 + s0 + ws ! 6 + s1) # ws))"

fun sha_round :: "u32 list \<Rightarrow> u32 \<times> u32 \<Rightarrow> u32 list" where
  "sha_round [a, b, c, d, e, f, g, h] (k, w) =
    (let s1 = rotr 6 e XOR rotr 11 e XOR rotr 25 e;
         ch = (e AND f) XOR (NOT e AND g);
         t1 = h + s1 + ch + k + w;
         s0 = rotr 2 a XOR rotr 13 a XOR rotr 22 a;
         maj = (a AND b) XOR (a AND c) XOR (b AND c)
     in [t1 + s0 + maj, a, b, c, d + t1, e, f, g])"
| "sha_round hs _ = hs"

definition sha_block :: "u32 list \<Rightarrow> byte list \<Rightarrow> u32 list" where
  "sha_block hs block =
     map2 (+) hs (foldl sha_round hs
       (zip sha_k (rev (sha_extend 48 (rev (map be_word (chunks 16 4 block)))))))"

definition Sum256 :: "byte list \<Rightarrow> byte list" where
  "Sum256 bs =
     (let p = sha_pad bs
      in concat (map (\<lambda>w. be_bytes 4 (unat w))
           (foldl sha_block sha_h0 (chunks (length p div 64) 64 p))))"

lemma length_be_bytes [simp]: "length (be_bytes k n) = k"
  by (simp add: be_bytes_def)

lemma length_sha_round [simp]: "length (sha_round hs kw) = length hs"
  by (induction hs kw rule: sha_round.induct) (auto simp: Let_def)

lemma length_sha_rounds [simp]: "length (foldl sha_round hs kws) = length hs"
  by (induction kws arbitrary: hs) auto

lemma length_sha_block [simp]: "length (sha_block hs block) = length hs"
  by (simp add: sha_block_def)

lemma length_sha_blocks [simp]: "length (foldl sha_block hs bs) = length hs"
  by (induction bs arbitrary: hs) auto

lemma length_concat_const: "\<forall>x \<in> set xs. length (f x) = k \<Longrightarrow> length (concat (map f xs)) = k * length xs"
  by (induction xs) auto

text \<open>A digest is 32 bytes, and the padding fills whole blocks.\<close>

lemma length_Sum256 [simp]: "length (Sum256 bs) = 32"
  unfolding Sum256_def Let_def by (subst length_concat_const [where k = 4]) (auto simp: sha_h0_def)

lemma pad_zeros: "(119 - r) mod 64 = (if r \<le> 55 then 55 - r else 119 - r)" if "r < 64" for r :: nat
proof (cases "r \<le> 55")
  case True
  then have "119 - r = 64 + (55 - r)" by simp
  then have "(119 - r) mod 64 = (55 - r) mod 64" by (simp only: mod_add_self1)
  with True show ?thesis by simp
qed (use that in simp)

lemma sha_pad_blocks: "length (sha_pad bs) mod 64 = 0"
proof -
  let ?r = "length bs mod 64" and ?q = "length bs div 64"
  have "length bs = 64 * ?q + ?r" by simp
  then have len: "length (sha_pad bs) = 64 * ?q + (?r + (119 - ?r) mod 64 + 9)"
    by (simp add: sha_pad_def)
  have "?r < 64" by simp
  then have "?r + (119 - ?r) mod 64 + 9 = (if ?r \<le> 55 then 64 else 128)"
    by (simp only: pad_zeros split: if_split) linarith
  then show ?thesis unfolding len by simp
qed

end
