(* ===== verification/Card_Service.thy ===== *)
theory Card_Service
  imports Luhn Go_Sha256 Card_Repo
begin

text \<open>
  internal/card: the administration of cards, over the same \<open>CardStore\<close> interface the engine
  uses. Each method of the Go service is a definition over the store; methods whose name the
  repository has too end in \<open>_service\<close>. The requests are the decoded JSON bodies, with absent
  fields as Go decodes them.

  The locale \<open>card_admin\<close> extends the contract of \<open>Store\<close> by what the administration relies on,
  and its interpretation shows that the card table keeps it.
\<close>

section \<open>Requests and responses\<close>

record CreateCardRequest =
  cr_PAN :: string
  cr_ExpiryDate :: string
  cr_Scheme :: string
  cr_CurrencyCode :: string
  cr_CreditLimit :: int64
  cr_AvailableBalance :: int64
  cr_Pin :: "string option"
  cr_CVV :: "string option"

record UpdateCardRequest =
  ur_ExpiryDate :: string
  ur_Scheme :: string
  ur_CurrencyCode :: string
  ur_CreditLimit :: "int64 option"
  ur_AvailableBalance :: "int64 option"
  ur_Status :: string

record CardResponse =
  cp_ID :: string
  cp_PAN :: string
  cp_PANMasked :: string
  cp_ExpiryDate :: string
  cp_Status :: string
  cp_Scheme :: string
  cp_CurrencyCode :: string
  cp_CreditLimit :: int64
  cp_AvailableBalance :: int64

definition card_response :: "Card \<Rightarrow> CardResponse" where
  "card_response c =
     \<lparr>cp_ID = c_ID c, cp_PAN = c_PAN c, cp_PANMasked = MaskPAN (c_PAN c),
      cp_ExpiryDate = c_ExpiryDate c, cp_Status = c_Status c, cp_Scheme = c_Scheme c,
      cp_CurrencyCode = c_CurrencyCode c, cp_CreditLimit = c_CreditLimit c,
      cp_AvailableBalance = c_AvailableBalance c\<rparr>"

section \<open>The operations\<close>

definition NewCardService :: "'s CardStore option \<Rightarrow> 's CardStore outcome" where
  "NewCardService s =
     (case s of
        None \<Rightarrow> Panic ''card service: store is nil - database is required''
      | Some ops \<Rightarrow> Return ops)"

text \<open>The digest of a PIN or CVV that is given and not blank.\<close>

definition secret_hash :: "string option \<Rightarrow> string option" where
  "secret_hash x =
     (case x of
        None \<Rightarrow> None
      | Some p \<Rightarrow> if trim_space p \<noteq> []
                  then Some (hex_encode (Sum256 (map of_char (trim_space p)))) else None)"

text \<open>The checks of \<open>CreateCard\<close> in order, and the row it builds when they pass.\<close>

definition new_card :: "CreateCardRequest \<Rightarrow> go_error + Card" where
  "new_card req =
     (let pan = remove_blanks (trim_space (cr_PAN req)) in
      if pan = [] then Inl (Errorf ''pan is required'')
      else if \<not> isDigits pan then Inl (Errorf ''pan must be numeric'')
      else if \<not> luhnValid pan then Inl (Errorf ''pan failed luhn check'')
      else
        let exp = trim_space (cr_ExpiryDate req) in
        if length exp \<noteq> 4 \<or> \<not> isDigits exp then Inl (Errorf ''expiry_date must be YYMM'')
        else
          let scheme = trim_space (cr_Scheme req);
              cur = trim_space (cr_CurrencyCode req)
          in Inr \<lparr>c_ID = [], c_PAN = pan, c_ExpiryDate = exp, c_Status = ''ACTIVE'',
                  c_Scheme = (if scheme = [] then ''GENERIC'' else scheme),
                  c_CurrencyCode = (if cur = [] then ''949'' else cur),
                  c_CreditLimit = cr_CreditLimit req,
                  c_AvailableBalance = cr_AvailableBalance req,
                  c_PinHash = secret_hash (cr_Pin req), c_CvvHash = secret_hash (cr_CVV req),
                  c_CreatedAt = 0, c_UpdatedAt = 0\<rparr>)"

definition CreateCard_service ::
  "'s CardStore \<Rightarrow> query_env \<Rightarrow> CreateCardRequest \<Rightarrow> 's \<Rightarrow> (go_error + CardResponse) \<times> 's" where
  "CreateCard_service ops q req s =
     (case new_card req of
        Inl e \<Rightarrow> (Inl e, s)
      | Inr c \<Rightarrow>
          (case cs_CreateCard ops q (Some c) s of
             (Inl e, s') \<Rightarrow> (Inl e, s')
           | (Inr created, s') \<Rightarrow> (Inr (card_response created), s')))"

definition ListCards_service ::
  "'s CardStore \<Rightarrow> query_env \<Rightarrow> int \<Rightarrow> int \<Rightarrow> 's \<Rightarrow> (go_error + CardResponse list) \<times> 's" where
  "ListCards_service ops q limit off s =
     (case cs_ListCards ops q limit off s of
        (Inl e, s') \<Rightarrow> (Inl e, s')
      | (Inr cs, s') \<Rightarrow> (Inr (map card_response cs), s'))"

text \<open>The checks and the merge of \<open>UpdateCard\<close>: an empty or absent field keeps its value.\<close>

definition merged_card :: "Card \<Rightarrow> UpdateCardRequest \<Rightarrow> go_error + Card" where
  "merged_card existing req =
     (let exp0 = trim_space (ur_ExpiryDate req) in
      if exp0 \<noteq> [] \<and> (length exp0 \<noteq> 4 \<or> \<not> isDigits exp0)
      then Inl (Errorf ''expiry_date must be YYMM'')
      else
        let exp = (if exp0 = [] then c_ExpiryDate existing else exp0);
            scheme0 = trim_space (ur_Scheme req);
            scheme = (if scheme0 = [] then c_Scheme existing else scheme0);
            cur0 = trim_space (ur_CurrencyCode req);
            cur = (if cur0 = [] then c_CurrencyCode existing else cur0);
            status0 = trim_space (ur_Status req);
            status = (if status0 = [] then c_Status existing else status0)
        in Inr (existing\<lparr>c_ExpiryDate := exp, c_Scheme := scheme, c_CurrencyCode := cur,
              c_CreditLimit := (case ur_CreditLimit req of None \<Rightarrow> c_CreditLimit existing | Some l \<Rightarrow> l),
              c_AvailableBalance :=
                (case ur_AvailableBalance req of None \<Rightarrow> c_AvailableBalance existing | Some b \<Rightarrow> b),
              c_Status := status\<rparr>))"

definition UpdateCard_service ::
  "'s CardStore \<Rightarrow> query_env \<Rightarrow> query_env \<Rightarrow> string \<Rightarrow> UpdateCardRequest \<Rightarrow> 's \<Rightarrow>
   (go_error + CardResponse) \<times> 's" where
  "UpdateCard_service ops q q' i req s =
     (case cs_GetCardByID ops q i s of
        (Inl e, s') \<Rightarrow> (Inl e, s')
      | (Inr None, s') \<Rightarrow> (Inl (Errorf ''card not found''), s')
      | (Inr (Some existing), s') \<Rightarrow>
          (case merged_card existing req of
             Inl e \<Rightarrow> (Inl e, s')
           | Inr c \<Rightarrow>
               (case cs_UpdateCard ops q' c s' of
                  (Inl e, s'') \<Rightarrow> (Inl e, s'')
                | (Inr updated, s'') \<Rightarrow> (Inr (card_response updated), s''))))"

definition DeleteCard_service ::
  "'s CardStore \<Rightarrow> query_env \<Rightarrow> string \<Rightarrow> 's \<Rightarrow> (go_error + unit) \<times> 's" where
  "DeleteCard_service ops q i s = cs_SoftDeleteCard ops q i s"

definition TopUp ::
  "'s CardStore \<Rightarrow> query_env \<Rightarrow> query_env \<Rightarrow> string \<Rightarrow> int64 \<Rightarrow> 's \<Rightarrow> (go_error + CardResponse) \<times> 's" where
  "TopUp ops q q' i amount s =
     (if amount \<le> 0 then (Inl (Errorf ''amount must be positive''), s)
      else
        (case cs_CreditBalance ops q i amount s of
           (Inl e, s') \<Rightarrow> (Inl e, s')
         | (Inr _, s') \<Rightarrow>
             (case cs_GetCardByID ops q' i s' of
                (Inr (Some c), s'') \<Rightarrow> (Inr (card_response c), s'')
              | (_, s'') \<Rightarrow> (Inl (Errorf ''card not found after top-up''), s''))))"

section \<open>The checks of a new card\<close>

lemma new_card_InrD:
  assumes "new_card req = Inr c"
  shows "c_PAN c = remove_blanks (trim_space (cr_PAN req))" "c_PAN c \<noteq> []"
    "isDigits (c_PAN c)" "luhnValid (c_PAN c)"
    "length (c_ExpiryDate c) = 4" "isDigits (c_ExpiryDate c)"
    "c_Status c = ''ACTIVE''" "c_AvailableBalance c = cr_AvailableBalance req"
  using assms by (auto simp: new_card_def Let_def split: if_splits)

lemma new_card_digits:
  assumes "ascii_digits pan" "pan \<noteq> []" "luhnValid pan" "ascii_digits exp" "length exp = 4"
    "cr_PAN req = pan" "cr_ExpiryDate req = exp"
  shows "\<exists>c. new_card req = Inr c \<and> c_PAN c = pan \<and> c_ExpiryDate c = exp"
  using assms
  by (simp add: new_card_def trim_space_digits remove_blanks_digits ascii_digits_isDigits Let_def)

text \<open>Secrets are stored as digests only: 64 hex digits whatever the secret.\<close>

lemma secret_hash_length: "secret_hash x = Some h \<Longrightarrow> length h = 64"
  by (auto simp: secret_hash_def split: option.splits if_splits)

lemma merged_card_keys: "merged_card c req = Inr d \<Longrightarrow> c_ID d = c_ID c \<and> c_PAN d = c_PAN c"
  by (auto simp: merged_card_def Let_def split: if_splits)

lemma merged_card_money:
  "merged_card c req = Inr d \<Longrightarrow> ur_AvailableBalance req = None \<Longrightarrow>
   c_AvailableBalance d = c_AvailableBalance c"
  by (auto simp: merged_card_def Let_def split: if_splits)

section \<open>What the administration relies on\<close>

locale card_admin = card_store +
  assumes lookup_id:
      "inv s \<Longrightarrow> cs_GetCardByID ops q i s = (x, s') \<Longrightarrow>
       s' = s \<and> (\<forall>c. x = Inr (Some c) \<longrightarrow> c_ID c = i \<and>
         bal s (c_PAN c) = Some (c_AvailableBalance c) \<and>
         (active s (c_PAN c) \<longleftrightarrow> c_Status c = ''ACTIVE''))"
    and create_ok:
      "inv s \<Longrightarrow> in_int64 (c_AvailableBalance c) \<Longrightarrow> cs_CreateCard ops q (Some c) s = (Inr r, t) \<Longrightarrow>
       inv t \<and> bal s (c_PAN c) = None \<and> bal t = (bal s)(c_PAN c \<mapsto> c_AvailableBalance c) \<and>
       active t = (active s)(c_PAN c := (c_Status c = ''ACTIVE'')) \<and>
       r = c\<lparr>c_ID := c_ID r, c_CreatedAt := c_CreatedAt r, c_UpdatedAt := c_UpdatedAt r\<rparr>"
    and create_err:
      "inv s \<Longrightarrow> in_int64 (c_AvailableBalance c) \<Longrightarrow> cs_CreateCard ops q (Some c) s = (Inl e, t) \<Longrightarrow>
       inv t \<and> (bal t = bal s \<and> active t = active s \<or>
         bal s (c_PAN c) = None \<and> bal t = (bal s)(c_PAN c \<mapsto> c_AvailableBalance c) \<and>
         active t = (active s)(c_PAN c := (c_Status c = ''ACTIVE'')))"
    and credit_id:
      "inv s \<Longrightarrow> cs_CreditBalance ops q i a s = (Inr (), t) \<Longrightarrow>
       0 < a \<and> inv t \<and> active t = active s \<and>
       (\<exists>p. p \<in> dom (bal s) \<and> bal t = move (bal s) p a \<and>
          (\<forall>q' c t'. cs_GetCardByID ops q' i t = (Inr (Some c), t') \<longrightarrow> c_PAN c = p))"
    and credit_id_err:
      "inv s \<Longrightarrow> cs_CreditBalance ops q i a s = (Inl e, t) \<Longrightarrow>
       inv t \<and> active t = active s \<and> (bal t = bal s \<or> (\<exists>p. 0 < a \<and> bal t = move (bal s) p a))"
    and update_ok:
      "inv s \<Longrightarrow> cs_GetCardByID ops q i s = (Inr (Some c), s') \<Longrightarrow> c_ID d = i \<Longrightarrow> c_PAN d = c_PAN c \<Longrightarrow>
       in_int64 (c_AvailableBalance d) \<Longrightarrow> cs_UpdateCard ops q' d s = (Inr r, t) \<Longrightarrow>
       inv t \<and> bal t = (bal s)(c_PAN c \<mapsto> c_AvailableBalance d) \<and>
       active t = (active s)(c_PAN c := (c_Status d = ''ACTIVE''))"
    and delete_ok:
      "inv s \<Longrightarrow> cs_SoftDeleteCard ops q i s = (Inr (), t) \<Longrightarrow>
       inv t \<and> bal t = bal s \<and> (\<exists>p. p \<in> dom (bal s) \<and> active t = (active s)(p := False) \<and>
         (\<forall>q' c s'. cs_GetCardByID ops q' i s = (Inr (Some c), s') \<longrightarrow> c_PAN c = p))"
begin

text \<open>A card that was created is new, valid and holds the requested balance; nobody else's changes.\<close>

lemma create_money:
  assumes "inv s" "in_int64 (cr_AvailableBalance req)"
    and "CreateCard_service ops q req s = (Inr resp, t)"
  shows "inv t \<and> luhnValid (cp_PAN resp) \<and> bal s (cp_PAN resp) = None \<and>
    bal t = (bal s)(cp_PAN resp \<mapsto> cr_AvailableBalance req) \<and> active t (cp_PAN resp)"
proof -
  obtain c where c: "new_card req = Inr c"
    using assms(3) by (auto simp: CreateCard_service_def split: sum.splits)
  obtain r where r: "cs_CreateCard ops q (Some c) s = (Inr r, t)" "resp = card_response r"
    using assms(3) by (auto simp: CreateCard_service_def c split: sum.splits prod.splits)
  note new = new_card_InrD [OF c]
  have i: "in_int64 (c_AvailableBalance c)" using assms(2) new(8) by simp
  from create_ok [OF assms(1) i r(1)]
  have law: "inv t" "bal s (c_PAN c) = None" "bal t = (bal s)(c_PAN c \<mapsto> c_AvailableBalance c)"
    "active t = (active s)(c_PAN c := (c_Status c = ''ACTIVE''))"
    and same: "r = c\<lparr>c_ID := c_ID r, c_CreatedAt := c_CreatedAt r, c_UpdatedAt := c_UpdatedAt r\<rparr>"
    by blast+
  have "c_PAN r = c_PAN c" using arg_cong [OF same, of c_PAN] by simp
  with law new r(2) show ?thesis by (simp add: card_response_def)
qed

text \<open>A top-up that answers has added exactly its amount to the card it shows.\<close>

lemma topup_money:
  assumes "inv s" "TopUp ops q q' i amount s = (Inr resp, t)"
  shows "0 < amount \<and> inv t \<and> bal t = move (bal s) (cp_PAN resp) amount \<and>
    bal t (cp_PAN resp) = Some (cp_AvailableBalance resp)"
proof -
  have pos: "0 < amount" using assms(2) by (simp add: TopUp_def split: if_splits)
  obtain u where u: "cs_CreditBalance ops q i amount s = (Inr (), u)"
    using assms(2) pos
    by (cases "cs_CreditBalance ops q i amount s"; cases "fst (cs_CreditBalance ops q i amount s)")
      (auto simp: TopUp_def)
  obtain x v where x: "cs_GetCardByID ops q' i u = (x, v)" by force
  obtain c where c: "x = Inr (Some c)" "t = v" "resp = card_response c"
    using assms(2) pos u x by (auto simp: TopUp_def split: sum.splits option.splits)
  from credit_id [OF assms(1) u] obtain p where p: "inv u" "bal u = move (bal s) p amount" "c_PAN c = p"
    using x c(1) by blast
  with lookup_id [OF p(1) x] c pos show ?thesis by (simp add: card_response_def)
qed

text \<open>A top-up that fails has added nothing or the whole amount; a refused one nothing.\<close>

lemma topup_failed:
  assumes "inv s" "TopUp ops q q' i amount s = (Inl e, t)"
  shows "inv t \<and> (bal t = bal s \<or> (\<exists>p. 0 < amount \<and> bal t = move (bal s) p amount))"
proof (cases "amount \<le> 0")
  case True
  with assms show ?thesis by (simp add: TopUp_def)
next
  case pos: False
  obtain x u where u: "cs_CreditBalance ops q i amount s = (x, u)" by force
  show ?thesis
  proof (cases x)
    case (Inl e')
    with credit_id_err [OF assms(1) u [unfolded Inl]] assms(2) pos u show ?thesis
      by (simp add: TopUp_def)
  next
    case (Inr y)
    obtain z v where z: "cs_GetCardByID ops q' i u = (z, v)" by force
    have cr: "cs_CreditBalance ops q i amount s = (Inr (), u)" using u Inr by simp
    from credit_id [OF assms(1) cr] have iu: "inv u" by simp
    have "t = u" using lookup_id [OF iu z] assms(2) pos cr z
      by (auto simp: TopUp_def split: sum.splits option.splits)
    with credit_id [OF assms(1) cr] show ?thesis by blast
  qed
qed

text \<open>An update can change the money of its own card only, and none when no balance is given.\<close>

lemma update_money:
  assumes "inv s" "\<forall>b. ur_AvailableBalance req = Some b \<longrightarrow> in_int64 b"
    and "\<forall>p b. bal s p = Some b \<longrightarrow> in_int64 b"
    and "UpdateCard_service ops q q' i req s = (Inr resp, t)"
  shows "inv t \<and> (\<exists>p b. bal s p = Some b \<and>
    bal t = (bal s)(p \<mapsto> (case ur_AvailableBalance req of None \<Rightarrow> b | Some b' \<Rightarrow> b')))"
proof -
  obtain x u where look: "cs_GetCardByID ops q i s = (x, u)" by force
  obtain c where c: "x = Inr (Some c)"
    using assms(4) look by (auto simp: UpdateCard_service_def split: sum.splits option.splits)
  have u: "u = s" "c_ID c = i" "bal s (c_PAN c) = Some (c_AvailableBalance c)"
    using lookup_id [OF assms(1) look] c by auto
  obtain d where d: "merged_card c req = Inr d"
    using assms(4) look c by (auto simp: UpdateCard_service_def split: sum.splits)
  obtain r where r: "cs_UpdateCard ops q' d s = (Inr r, t)"
    using assms(4) look c d u(1) by (auto simp: UpdateCard_service_def split: sum.splits prod.splits)
  have b: "c_AvailableBalance d =
      (case ur_AvailableBalance req of None \<Rightarrow> c_AvailableBalance c | Some b' \<Rightarrow> b')"
    using d by (auto simp: merged_card_def Let_def split: if_splits)
  have "in_int64 (c_AvailableBalance d)"
    using b assms(2,3) u(3) by (auto split: option.splits)
  with update_ok [OF assms(1) look [unfolded c] _ _ _ r] merged_card_keys [OF d] u b
  show ?thesis by auto
qed

text \<open>Deleting a card freezes its money: no purchase on it is approved afterwards.\<close>

lemma delete_freezes:
  assumes "inv s" "cs_GetCardByID ops q i s = (Inr (Some c), s')"
    and "DeleteCard_service ops q' i s = (Inr (), t)"
  shows "inv t \<and> bal t = bal s \<and> \<not> active t (c_PAN c)"
proof -
  from delete_ok [OF assms(1) assms(3) [unfolded DeleteCard_service_def]] obtain p where
    p: "inv t" "bal t = bal s" "active t = (active s)(p := False)"
    "\<forall>q' c s'. cs_GetCardByID ops q' i s = (Inr (Some c), s') \<longrightarrow> c_PAN c = p" by blast
  with assms(2) have "c_PAN c = p" by blast
  with p show ?thesis by simp
qed

end

section \<open>The card table keeps the contract\<close>

lemma GetCardByID_answer:
  "GetCardByID q i t = (x, t') \<Longrightarrow> t' = t \<and> (\<forall>c. x = Inr (Some c) \<longrightarrow> row_by_id i t = Some c)"
  by (auto simp: GetCardByID_def exec_stmt_def sql_select_by_id_def
      split: fault.splits prod.splits sum.splits)

lemma row_by_id_pan:
  assumes "table_ok t" "row_by_id i t = Some c"
  shows "row_by_pan (c_PAN c) t = Some c"
  using row_by_idD [OF assms(2)] row_by_pan_iff [OF assms(1)] by simp

lemma sql_insert_effect:
  assumes "table_ok t" "in_int64 (c_AvailableBalance c)" "sql_insert q c t = (x, t')"
  shows "(\<exists>e. x = Inl e) \<and> t' = t \<or>
    x = Inr (q_id q, q_now q, q_now q) \<and> row_by_pan (c_PAN c) t = None \<and> table_ok t' \<and>
    balances t' = (balances t)(c_PAN c \<mapsto> c_AvailableBalance c) \<and>
    is_active t' = (is_active t)(c_PAN c := (c_Status c = ''ACTIVE''))"
proof (cases "row_by_pan (c_PAN c) t = None \<and> row_by_id (q_id q) t = None")
  case False
  with assms(3) show ?thesis by (auto simp: sql_insert_def)
next
  case True
  let ?r = "c\<lparr>c_ID := q_id q, c_CreatedAt := q_now q, c_UpdatedAt := q_now q\<rparr>"
  have t': "x = Inr (q_id q, q_now q, q_now q)" "t' = t @ [?r]"
    using assms(3) True by (auto simp: sql_insert_def)
  have new: "q_id q \<notin> c_ID ` set t" "c_PAN c \<notin> c_PAN ` set t"
    using True by (simp_all add: row_by_id_None row_by_pan_None)
  have row: "row_by_pan p t' = (if p = c_PAN c then Some ?r else row_by_pan p t)" for p
  proof (cases "row_by_pan p t")
    case None
    then show ?thesis by (simp add: t' row_by_pan_def find_append)
  next
    case (Some d)
    with True show ?thesis by (auto simp: t' row_by_pan_def find_append)
  qed
  have "table_ok t'" using assms(1,2) new by (auto simp: t' table_ok_def)
  moreover have "balances t' = (balances t)(c_PAN c \<mapsto> c_AvailableBalance c)"
    by (rule ext) (simp add: balances_def row)
  moreover have "is_active t' = (is_active t)(c_PAN c := (c_Status c = ''ACTIVE''))"
    by (rule ext) (simp add: is_active_def row)
  ultimately show ?thesis using t' True by blast
qed

text \<open>An update by id that sets the balance and status of the row, as a whole-row update does.\<close>

lemma sql_update_row_effect:
  assumes "table_ok t" "row_by_id i t = Some c"
    and "\<And>r. c_ID (f r) = c_ID r" "\<And>r. c_PAN (f r) = c_PAN r"
    and "in_int64 (c_AvailableBalance (f c))"
  shows "sql_update (\<lambda>r. c_ID r = i) f t = (Inr 1, update_where (\<lambda>r. c_ID r = i) f t)"
    and "table_ok (update_where (\<lambda>r. c_ID r = i) f t)"
    and "balances (update_where (\<lambda>r. c_ID r = i) f t) =
           (balances t)(c_PAN c \<mapsto> c_AvailableBalance (f c))"
    and "is_active (update_where (\<lambda>r. c_ID r = i) f t) =
           (is_active t)(c_PAN c := (c_Status (f c) = ''ACTIVE''))"
proof -
  have c: "c \<in> set t" "c_ID c = i" using row_by_idD [OF assms(2)] by auto
  have only: "r = c" if "r \<in> set t" "c_ID r = i" for r
    using same_id_same_row [OF assms(1)] that c by metis
  have "\<not> list_ex (\<lambda>r. c_ID r = i \<and> \<not> in_int64 (c_AvailableBalance (f r))) t"
    using only assms(5) by (auto simp: list_ex_iff)
  then show "sql_update (\<lambda>r. c_ID r = i) f t = (Inr 1, update_where (\<lambda>r. c_ID r = i) f t)"
    using rows_affected_id [OF assms(1), of i] assms(2) by (simp add: sql_update_def)
  show "table_ok (update_where (\<lambda>r. c_ID r = i) f t)"
    using assms(5) only by (intro table_ok_update [OF assms(1) assms(3,4)]) auto
  have row: "row_by_pan p (update_where (\<lambda>r. c_ID r = i) f t) =
      (if p = c_PAN c then Some (f c) else row_by_pan p t)" for p
  proof (cases "row_by_pan p t")
    case None
    then have "p \<noteq> c_PAN c" using c(1) by (auto simp: row_by_pan_None)
    with None show ?thesis by (simp add: table_simps assms(4))
  next
    case (Some d)
    have d: "d \<in> set t" "c_PAN d = p" using row_by_panD [OF Some] by auto
    show ?thesis
    proof (cases "d = c")
      case True
      with Some d(2) c(2) show ?thesis by (simp add: table_simps assms(4))
    next
      case False
      then have "c_ID d \<noteq> i" using only [OF d(1)] by blast
      moreover have "p \<noteq> c_PAN c"
        using False row_by_id_pan [OF assms(1,2)] Some by auto
      ultimately show ?thesis using Some by (simp add: table_simps assms(4))
    qed
  qed
  show "balances (update_where (\<lambda>r. c_ID r = i) f t) =
      (balances t)(c_PAN c \<mapsto> c_AvailableBalance (f c))"
    by (rule ext) (simp add: balances_def row)
  show "is_active (update_where (\<lambda>r. c_ID r = i) f t) =
      (is_active t)(c_PAN c := (c_Status (f c) = ''ACTIVE''))"
    by (rule ext) (simp add: is_active_def row)
qed

lemma sql_update_missing:
  assumes "table_ok t" "row_by_id i t = None"
  shows "sql_update (\<lambda>r. c_ID r = i) f t = (Inr 0, t)"
proof -
  have "rows_affected (\<lambda>r. c_ID r = i) t = 0"
    using rows_affected_id [OF assms(1), of i] assms(2) by simp
  moreover have "\<not> list_ex (\<lambda>r. c_ID r = i \<and> \<not> in_int64 (c_AvailableBalance (f r))) t"
    using assms(2) by (auto simp: row_by_id_None list_ex_iff)
  ultimately show ?thesis by (simp add: sql_update_def rows_affected_0)
qed

lemma balance_in_int64: "table_ok t \<Longrightarrow> row_by_id i t = Some c \<Longrightarrow> in_int64 (c_AvailableBalance c)"
  using row_by_idD by (auto simp: table_ok_def)

text \<open>A credit by id: the row it finds, if any, is the one that moves.\<close>

lemma CreditBalance_by_id:
  assumes "table_ok t" "CreditBalance q i a t = (x, t')"
  shows "table_ok t' \<and> is_active t' = is_active t \<and>
    (case row_by_id i t of
       None \<Rightarrow> t' = t \<and> x \<noteq> Inr ()
     | Some c \<Rightarrow> (x = Inr () \<longrightarrow> 0 < a \<and> balances t' = move (balances t) (c_PAN c) a) \<and>
         (balances t' = balances t \<or> 0 < a \<and> balances t' = move (balances t) (c_PAN c) a))"
proof (cases "row_by_id i t")
  case None
  with assms sql_update_missing [OF assms(1) None] show ?thesis
    by (auto simp: CreditBalance_def exec_stmt_def split: if_splits fault.splits)
next
  case (Some c)
  have "c_ID c = i" using row_by_idD [OF Some] by simp
  with CreditBalance_by_pan [OF assms(1) row_by_id_pan [OF assms(1) Some]] assms(2) Some
  show ?thesis by auto
qed

lemma row_by_id_pan_same:
  "map c_ID t = map c_ID s \<Longrightarrow> map c_PAN t = map c_PAN s \<Longrightarrow>
   map_option c_PAN (row_by_id i t) = map_option c_PAN (row_by_id i s)"
proof (induction t arbitrary: s)
  case (Cons c t)
  then show ?case by (cases s) (auto simp: row_by_id_def)
qed (simp add: row_by_id_def)

lemma CreditBalance_ids: "map c_ID (snd (CreditBalance q i a t)) = map c_ID t"
  "map c_PAN (snd (CreditBalance q i a t)) = map c_PAN t"
  by (auto simp: CreditBalance_def exec_stmt_def sql_update_def update_where_def
      split: fault.splits if_splits)


lemma CreateCard_answer:
  assumes "table_ok t" "in_int64 (c_AvailableBalance c)" "CreateCard q (Some c) t = (x, t')"
  shows "(case x of
      Inl e \<Rightarrow> table_ok t' \<and> (balances t' = balances t \<and> is_active t' = is_active t \<or>
        row_by_pan (c_PAN c) t = None \<and>
        balances t' = (balances t)(c_PAN c \<mapsto> c_AvailableBalance c) \<and>
        is_active t' = (is_active t)(c_PAN c := (c_Status c = ''ACTIVE'')))
    | Inr r \<Rightarrow> table_ok t' \<and> row_by_pan (c_PAN c) t = None \<and>
        balances t' = (balances t)(c_PAN c \<mapsto> c_AvailableBalance c) \<and>
        is_active t' = (is_active t)(c_PAN c := (c_Status c = ''ACTIVE'')) \<and>
        r = c\<lparr>c_ID := c_ID r, c_CreatedAt := c_CreatedAt r, c_UpdatedAt := c_UpdatedAt r\<rparr>)"
proof -
  obtain y u where y: "sql_insert q c t = (y, u)" by force
  from sql_insert_effect [OF assms(1,2) y] assms(1,3) y show ?thesis
    by (auto simp: CreateCard_def exec_stmt_def split: fault.splits)
qed

lemma UpdateCard_answer:
  assumes "table_ok t" "row_by_id (c_ID d) t = Some c" "c_PAN d = c_PAN c"
    and "in_int64 (c_AvailableBalance d)" "UpdateCard q d t = (Inr r, t')"
  shows "table_ok t' \<and> balances t' = (balances t)(c_PAN c \<mapsto> c_AvailableBalance d) \<and>
    is_active t' = (is_active t)(c_PAN c := (c_Status d = ''ACTIVE''))"
proof -
  let ?f = "\<lambda>r. r\<lparr>c_ExpiryDate := c_ExpiryDate d, c_Scheme := c_Scheme d,
      c_CurrencyCode := c_CurrencyCode d, c_CreditLimit := c_CreditLimit d,
      c_AvailableBalance := c_AvailableBalance d, c_Status := c_Status d, c_UpdatedAt := q_now q\<rparr>"
  have keys: "\<And>r. c_ID (?f r) = c_ID r" "\<And>r. c_PAN (?f r) = c_PAN r"
    and i: "in_int64 (c_AvailableBalance (?f c))" using assms(4) by simp_all
  note eff = sql_update_row_effect [OF assms(1,2) keys i]
  have "t' = update_where (\<lambda>r. c_ID r = c_ID d) ?f t"
    using assms(5) eff(1) by (auto simp: UpdateCard_def exec_stmt_def split: fault.splits)
  with eff(2,3,4) show ?thesis by simp
qed

lemma SoftDeleteCard_answer:
  assumes "table_ok t" "SoftDeleteCard q i t = (Inr (), t')"
  shows "\<exists>c. row_by_id i t = Some c \<and> table_ok t' \<and> balances t' = balances t \<and>
    is_active t' = (is_active t)(c_PAN c := False)"
proof (cases "row_by_id i t")
  case None
  with assms sql_update_missing [OF assms(1) None] show ?thesis
    by (auto simp: SoftDeleteCard_def exec_stmt_def split: fault.splits)
next
  case (Some c)
  let ?f = "\<lambda>r. r\<lparr>c_Status := ''DELETED'', c_UpdatedAt := q_now q\<rparr>"
  have keys: "\<And>r. c_ID (?f r) = c_ID r" "\<And>r. c_PAN (?f r) = c_PAN r"
    and i: "in_int64 (c_AvailableBalance (?f c))"
    using balance_in_int64 [OF assms(1) Some] by simp_all
  note eff = sql_update_row_effect [OF assms(1) Some keys i]
  have t': "t' = update_where (\<lambda>r. c_ID r = i) ?f t"
    using assms(2) eff(1) by (auto simp: SoftDeleteCard_def exec_stmt_def split: fault.splits)
  have "balances t (c_PAN c) = Some (c_AvailableBalance c)"
    using row_by_id_pan [OF assms(1) Some] by (simp add: balances_def)
  then have "balances t' = balances t" unfolding t' eff(3) by auto
  with eff(2,4) Some show ?thesis by (simp add: t')
qed

interpretation pga: card_admin postgres_cards table_ok balances is_active
proof (unfold_locales, unfold postgres_cards_def CardStore.simps)
  fix q i and s s' :: cards and x
  assume s: "table_ok s" "GetCardByID q i s = (x, s')"
  from GetCardByID_answer [OF s(2)] row_by_id_pan [OF s(1)] row_by_idD
  show "s' = s \<and> (\<forall>c. x = Inr (Some c) \<longrightarrow> c_ID c = i \<and>
      balances s (c_PAN c) = Some (c_AvailableBalance c) \<and>
      is_active s (c_PAN c) = (c_Status c = ''ACTIVE''))"
    by (fastforce simp: balances_def is_active_def)
next
  fix q c r and s t :: cards
  assume "table_ok s" "in_int64 (c_AvailableBalance c)" "CreateCard q (Some c) s = (Inr r, t)"
  from CreateCard_answer [OF this]
  show "table_ok t \<and> balances s (c_PAN c) = None \<and>
      balances t = (balances s)(c_PAN c \<mapsto> c_AvailableBalance c) \<and>
      is_active t = (is_active s)(c_PAN c := (c_Status c = ''ACTIVE'')) \<and>
      r = c\<lparr>c_ID := c_ID r, c_CreatedAt := c_CreatedAt r, c_UpdatedAt := c_UpdatedAt r\<rparr>"
    unfolding sum.case balances_def by blast
next
  fix q c e and s t :: cards
  assume "table_ok s" "in_int64 (c_AvailableBalance c)" "CreateCard q (Some c) s = (Inl e, t)"
  from CreateCard_answer [OF this]
  show "table_ok t \<and> (balances t = balances s \<and> is_active t = is_active s \<or>
      balances s (c_PAN c) = None \<and> balances t = (balances s)(c_PAN c \<mapsto> c_AvailableBalance c) \<and>
      is_active t = (is_active s)(c_PAN c := (c_Status c = ''ACTIVE'')))"
    by (auto simp: balances_def)
next
  fix q i a and s t :: cards
  assume s: "table_ok s" "CreditBalance q i a s = (Inr (), t)"
  from CreditBalance_by_id [OF s] obtain c where
    c: "row_by_id i s = Some c" "0 < a" "balances t = move (balances s) (c_PAN c) a"
    and ok: "table_ok t" "is_active t = is_active s"
    by (auto split: option.splits)
  have dom: "c_PAN c \<in> dom (balances s)"
    using row_by_id_pan [OF s(1) c(1)] by (auto simp: balances_def)
  have "c_PAN d = c_PAN c" if "row_by_id i t = Some d" for d
  proof -
    have "map_option c_PAN (row_by_id i t) = map_option c_PAN (row_by_id i s)"
      using CreditBalance_ids [of q i a s] s(2) by (intro row_by_id_pan_same) simp_all
    with that c(1) show ?thesis by simp
  qed
  with GetCardByID_answer dom c ok
  show "0 < a \<and> table_ok t \<and> is_active t = is_active s \<and>
      (\<exists>p. p \<in> dom (balances s) \<and> balances t = move (balances s) p a \<and>
         (\<forall>q' c t'. GetCardByID q' i t = (Inr (Some c), t') \<longrightarrow> c_PAN c = p))"
    by blast
next
  fix q i a e and s t :: cards
  assume "table_ok s" "CreditBalance q i a s = (Inl e, t)"
  from CreditBalance_by_id [OF this]
  show "table_ok t \<and> is_active t = is_active s \<and>
      (balances t = balances s \<or> (\<exists>p. 0 < a \<and> balances t = move (balances s) p a))"
    by (auto split: option.splits)
next
  fix q i c d q' r and s s' t :: cards
  assume s: "table_ok s" "GetCardByID q i s = (Inr (Some c), s')" "c_ID d = i" "c_PAN d = c_PAN c"
    "in_int64 (c_AvailableBalance d)" "UpdateCard q' d s = (Inr r, t)"
  have "row_by_id (c_ID d) s = Some c" using GetCardByID_answer [OF s(2)] s(3) by simp
  from UpdateCard_answer [OF s(1) this s(4,5,6)]
  show "table_ok t \<and> balances t = (balances s)(c_PAN c \<mapsto> c_AvailableBalance d) \<and>
      is_active t = (is_active s)(c_PAN c := (c_Status d = ''ACTIVE''))" .
next
  fix q i and s t :: cards
  assume s: "table_ok s" "SoftDeleteCard q i s = (Inr (), t)"
  from SoftDeleteCard_answer [OF s] obtain c where c: "row_by_id i s = Some c" "table_ok t"
    "balances t = balances s" "is_active t = (is_active s)(c_PAN c := False)" by blast
  have "c_PAN c \<in> dom (balances s)"
    using row_by_id_pan [OF s(1) c(1)] by (auto simp: balances_def)
  with c GetCardByID_answer
  show "table_ok t \<and> balances t = balances s \<and>
      (\<exists>p. p \<in> dom (balances s) \<and> is_active t = (is_active s)(p := False) \<and>
         (\<forall>q' c s'. GetCardByID q' i s = (Inr (Some c), s') \<longrightarrow> c_PAN c = p))"
    by (metis option.inject)
qed

section \<open>The rows behind a created and an updated card\<close>

text \<open>
  A creation appends one row or leaves the table as it is. It answers with the row it appended,
  unless the reply of the insertion was lost.
\<close>

definition reply_lost :: "query_env \<Rightarrow> go_error + 'a \<Rightarrow> bool" where
  "reply_lost q x \<longleftrightarrow> (\<exists>e e'. x = Inl e \<and> q_fault q = LostReply e')"

lemma CreateCard_rows:
  assumes "CreateCard q (Some c) t = (x, u)"
  shows "u = t \<and> (\<exists>e. x = Inl e) \<or>
    row_by_pan (c_PAN c) t = None \<and>
    (\<exists>r. r = c\<lparr>c_ID := q_id q, c_CreatedAt := q_now q, c_UpdatedAt := q_now q\<rparr> \<and> u = t @ [r] \<and>
       (x = Inr r \<or> reply_lost q x))"
  using assms
  by (auto simp: CreateCard_def exec_stmt_def sql_insert_def reply_lost_def split: fault.splits if_splits)

lemma create_card_rows:
  assumes "table_ok t" "in_int64 (cr_AvailableBalance req)"
    and "CreateCard_service postgres_cards q req t = (x, u)"
  shows "table_ok u \<and>
    (u = t \<and> (\<exists>e. x = Inl e) \<or>
     (\<exists>c. c_PAN c = remove_blanks (trim_space (cr_PAN req)) \<and> luhnValid (c_PAN c) \<and>
        c_Status c = ''ACTIVE'' \<and> c_AvailableBalance c = cr_AvailableBalance req \<and>
        row_by_pan (c_PAN c) t = None \<and> u = t @ [c] \<and>
        balances u = (balances t)(c_PAN c \<mapsto> cr_AvailableBalance req) \<and>
        is_active u = (is_active t)(c_PAN c := True) \<and>
        (x = Inr (card_response c) \<or> reply_lost q x)))"
proof (cases "new_card req")
  case (Inl e)
  with assms(1,3) show ?thesis by (auto simp: CreateCard_service_def)
next
  case (Inr c)
  note new = new_card_InrD [OF Inr]
  obtain y v where y: "CreateCard q (Some c) t = (y, v)" by force
  have x: "u = v" "x = map_sum (\<lambda>e. e) card_response y"
    using assms(3) y Inr by (auto simp: CreateCard_service_def postgres_cards_def split: sum.splits)
  have i: "in_int64 (c_AvailableBalance c)" using assms(2) new(8) by simp
  from CreateCard_answer [OF assms(1) i y] have ok: "table_ok u" by (simp add: x(1) split: sum.splits)
  from CreateCard_rows [OF y] consider e where "v = t" "y = Inl e"
    | r where "row_by_pan (c_PAN c) t = None"
      "r = c\<lparr>c_ID := q_id q, c_CreatedAt := q_now q, c_UpdatedAt := q_now q\<rparr>" "v = t @ [r]"
      "y = Inr r \<or> reply_lost q y" by blast
  then show ?thesis
  proof cases
    case 1
    with ok x show ?thesis by simp
  next
    case r: (2 r)
    have row: "row_by_pan p u = (if p = c_PAN c then Some r else row_by_pan p t)" for p
      using r(1) by (auto simp: x(1) r(2,3) row_by_pan_def find_append split: option.split)
    have eff: "balances u = (balances t)(c_PAN c \<mapsto> cr_AvailableBalance req)"
      "is_active u = (is_active t)(c_PAN c := True)"
      using new(7,8) by (auto simp: balances_def is_active_def row r(2) fun_eq_iff)
    have ans: "x = Inr (card_response r) \<or> reply_lost q x" using r(4) x(2) by (auto simp: reply_lost_def)
    have keys: "c_PAN r = c_PAN c" "c_Status r = ''ACTIVE''" "c_AvailableBalance r = cr_AvailableBalance req"
      using new(7,8) by (simp_all add: r(2))
    show ?thesis
      by (rule conjI, rule ok, rule disjI2, rule exI [of _ r])
        (use ans eff keys r(1,3) x(1) new(1,4) in simp)
  qed
qed

text \<open>An update writes the merged row in the place of the one it read, and no other.\<close>

lemma UpdateCard_rows:
  assumes "table_ok t" "row_by_id (c_ID d) t = Some c" "c_PAN d = c_PAN c"
    and "in_int64 (c_AvailableBalance d)" "UpdateCard q d t = (x, u)"
  shows "u = t \<and> (\<exists>e. x = Inl e) \<or>
    u = update_where (\<lambda>r. c_ID r = c_ID d)
      (\<lambda>r. r\<lparr>c_ExpiryDate := c_ExpiryDate d, c_Scheme := c_Scheme d,
             c_CurrencyCode := c_CurrencyCode d, c_CreditLimit := c_CreditLimit d,
             c_AvailableBalance := c_AvailableBalance d, c_Status := c_Status d, c_UpdatedAt := q_now q\<rparr>) t \<and>
    (x = Inr (d\<lparr>c_UpdatedAt := q_now q\<rparr>) \<or> reply_lost q x)"
proof -
  let ?f = "\<lambda>r. r\<lparr>c_ExpiryDate := c_ExpiryDate d, c_Scheme := c_Scheme d,
      c_CurrencyCode := c_CurrencyCode d, c_CreditLimit := c_CreditLimit d,
      c_AvailableBalance := c_AvailableBalance d, c_Status := c_Status d, c_UpdatedAt := q_now q\<rparr>"
  have keys: "\<And>r. c_ID (?f r) = c_ID r" "\<And>r. c_PAN (?f r) = c_PAN r"
    and i: "in_int64 (c_AvailableBalance (?f c))" using assms(4) by simp_all
  from sql_update_row_effect(1) [OF assms(1,2) keys i] assms(5) show ?thesis
    by (auto simp: UpdateCard_def exec_stmt_def reply_lost_def split: fault.splits)
qed

lemma merged_row:
  "merged_card c req = Inr d \<Longrightarrow> c\<lparr>c_ExpiryDate := c_ExpiryDate d, c_Scheme := c_Scheme d,
      c_CurrencyCode := c_CurrencyCode d, c_CreditLimit := c_CreditLimit d,
      c_AvailableBalance := c_AvailableBalance d, c_Status := c_Status d, c_UpdatedAt := u\<rparr> =
    d\<lparr>c_UpdatedAt := u\<rparr>"
  by (auto simp: merged_card_def Let_def split: if_splits)

lemma update_card_rows:
  assumes "table_ok t" "\<forall>b. ur_AvailableBalance req = Some b \<longrightarrow> in_int64 b"
    and "UpdateCard_service postgres_cards q q' i req t = (x, u)"
  shows "table_ok u \<and>
    (u = t \<and> (\<exists>e. x = Inl e) \<or>
     (\<exists>c d. row_by_id i t = Some c \<and> merged_card c req = Inr d \<and> c_ID d = i \<and> c_PAN d = c_PAN c \<and>
        c_AvailableBalance d = (case ur_AvailableBalance req of None \<Rightarrow> c_AvailableBalance c | Some b \<Rightarrow> b) \<and>
        row_by_id i u = Some (d\<lparr>c_UpdatedAt := q_now q'\<rparr>) \<and>
        (\<forall>j. j \<noteq> i \<longrightarrow> row_by_id j u = row_by_id j t) \<and>
        balances u = (balances t)(c_PAN c \<mapsto> c_AvailableBalance d) \<and>
        is_active u = (is_active t)(c_PAN c := (c_Status d = ''ACTIVE'')) \<and>
        (x = Inr (card_response d) \<or> reply_lost q' x)))"
proof -
  obtain y v where look: "GetCardByID q i t = (y, v)" by force
  from GetCardByID_answer [OF look] have v: "v = t"
    and c: "\<And>c. y = Inr (Some c) \<Longrightarrow> row_by_id i t = Some c" by auto
  show ?thesis
  proof (cases "\<exists>c d. y = Inr (Some c) \<and> merged_card c req = Inr d")
    case False
    with assms(1,3) look v show ?thesis
      by (auto simp: UpdateCard_service_def postgres_cards_def split: sum.splits option.splits)
  next
    case True
    then obtain c d where y: "y = Inr (Some c)" and d: "merged_card c req = Inr d" by blast
    obtain z w where z: "UpdateCard q' d t = (z, w)" by force
    have x: "u = w" "x = map_sum (\<lambda>e. e) card_response z"
      using assms(3) look v y d z by (auto simp: UpdateCard_service_def postgres_cards_def split: sum.splits)
    have keys: "c_ID d = i" "c_PAN d = c_PAN c"
      using merged_card_keys [OF d] row_by_idD [OF c [OF y]] by auto
    have b: "c_AvailableBalance d =
        (case ur_AvailableBalance req of None \<Rightarrow> c_AvailableBalance c | Some b \<Rightarrow> b)"
      using d by (auto simp: merged_card_def Let_def split: if_splits)
    have i: "in_int64 (c_AvailableBalance d)"
      using b assms(2) balance_in_int64 [OF assms(1) c [OF y]] by (auto split: option.splits)
    let ?f = "\<lambda>r. r\<lparr>c_ExpiryDate := c_ExpiryDate d, c_Scheme := c_Scheme d,
      c_CurrencyCode := c_CurrencyCode d, c_CreditLimit := c_CreditLimit d,
      c_AvailableBalance := c_AvailableBalance d, c_Status := c_Status d, c_UpdatedAt := q_now q'\<rparr>"
    have row: "row_by_id (c_ID d) t = Some c" using c [OF y] keys(1) by simp
    from UpdateCard_rows [OF assms(1) row keys(2) i z] consider e where "w = t" "z = Inl e"
      | "w = update_where (\<lambda>r. c_ID r = c_ID d) ?f t"
        "z = Inr (d\<lparr>c_UpdatedAt := q_now q'\<rparr>) \<or> reply_lost q' z" by blast
    then show ?thesis
    proof cases
      case 1
      with assms(1) x show ?thesis by simp
    next
      case 2
      note w = 2(1)
      have kf: "\<And>r. c_ID (?f r) = c_ID r" "\<And>r. c_PAN (?f r) = c_PAN r"
        and fi: "in_int64 (c_AvailableBalance (?f c))" using i by simp_all
      note eff = sql_update_row_effect [OF assms(1) row kf fi]
      have rows: "row_by_id j u = (if j = i then Some (d\<lparr>c_UpdatedAt := q_now q'\<rparr>) else row_by_id j t)" for j
      proof (cases "row_by_id j t")
        case None
        then show ?thesis using row keys(1) by (auto simp: x(1) w row_by_id_update)
      next
        case (Some r)
        with row row_by_idD [OF Some] keys(1) merged_row [OF d] show ?thesis
          by (auto simp: x(1) w row_by_id_update)
      qed
      have ans: "x = Inr (card_response d) \<or> reply_lost q' x"
        using 2(2) x(2) by (auto simp: reply_lost_def card_response_def)
      have ok: "table_ok u" using eff(2) by (simp only: x(1) w)
      show ?thesis
        by (rule conjI, rule ok, rule disjI2, rule exI [of _ c], rule exI [of _ d])
          (use ans eff(3,4) c [OF y] d keys b rows in \<open>simp add: x(1) w\<close>)
    qed
  qed
qed

section \<open>Reading and writing are two statements\<close>

text \<open>
  \<open>UpdateCard\<close> of the service writes back the whole row it read. A debit that commits in between is
  undone, also when the request does not set the balance.
\<close>

lemma AuthorizeAndDebit_keys:
  "map c_ID (snd (AuthorizeAndDebit q pan a t)) = map c_ID t"
  "map c_PAN (snd (AuthorizeAndDebit q pan a t)) = map c_PAN t"
  by (auto simp: AuthorizeAndDebit_def exec_stmt_def sql_authorize_def update_where_def Let_def
      split: option.split fault.split sum.split prod.split)

lemma update_after_debit:
  assumes "table_ok t" "GetCardByID q i t = (Inr (Some c), t')" "merged_card c req = Inr d"
    and "ur_AvailableBalance req = None"
    and "AuthorizeAndDebit q2 (c_PAN c) a t = (Inr (Some r), u)" "r_Debited r"
    and "UpdateCard q3 d u = (Inr e, v)"
  shows "0 < a \<and> balances u (c_PAN c) = Some (c_AvailableBalance c - a) \<and>
    balances v (c_PAN c) = Some (c_AvailableBalance c)"
proof -
  have c: "row_by_id i t = Some c" using GetCardByID_answer [OF assms(2)] by simp
  have cid: "c_ID c = i" using row_by_idD [OF c] by simp
  have deb: "cs_AuthorizeAndDebit postgres_cards q2 (c_PAN c) a t = (Inr (Some r), u)"
    using assms(5) by (simp add: postgres_cards_def)
  from pg.debit_found [OF assms(1) deb] assms(6) row_by_id_pan [OF assms(1) c]
  have u: "0 < a" "table_ok u" "balances u = move (balances t) (c_PAN c) (- a)" by auto
  have bt: "balances t (c_PAN c) = Some (c_AvailableBalance c)"
    using row_by_id_pan [OF assms(1) c] by (simp add: balances_def)
  have ids: "map c_ID u = map c_ID t"
    using AuthorizeAndDebit_keys(1) [of q2 "c_PAN c" a t] assms(5) by simp
  then have "i \<in> c_ID ` set u" using row_by_idD [OF c] by (metis image_eqI list.set_map)
  then obtain c' where c': "row_by_id i u = Some c'" using row_by_id_None [of i u] by fastforce
  have d: "c_ID d = i" "c_PAN d = c_PAN c" "c_AvailableBalance d = c_AvailableBalance c"
    using merged_card_keys [OF assms(3)] merged_card_money [OF assms(3,4)] cid by auto
  have "map c_PAN u = map c_PAN t" using AuthorizeAndDebit_keys(2) [of q2 "c_PAN c" a t] assms(5) by simp
  with ids have "map_option c_PAN (row_by_id i u) = map_option c_PAN (row_by_id i t)"
    by (intro row_by_id_pan_same)
  with c c' have pan: "c_PAN c' = c_PAN c" by simp
  have "row_by_id (c_ID d) u = Some c'" "c_PAN d = c_PAN c'" using c' d pan by simp_all
  from UpdateCard_answer [OF u(2) this _ assms(7)] balance_in_int64 [OF assms(1) c] d pan
  have "balances v (c_PAN c) = Some (c_AvailableBalance c)" by simp
  with u bt show ?thesis by simp
qed

section \<open>Listing\<close>

lemma ListCards_page:
  assumes "ListCards_service postgres_cards q limit off t = (Inr cs, t')"
  shows "t' = t \<and> length cs \<le> 500 \<and>
    (\<forall>r \<in> set cs. cp_PANMasked r = MaskPAN (cp_PAN r) \<and>
       (\<exists>c \<in> set t. r = card_response c \<and> c_Status c \<noteq> ''DELETED''))"
proof -
  let ?l = "filter (\<lambda>c. c_Status c \<noteq> ''DELETED'') t"
  have cs: "t' = t" "cs = map card_response (page_newest c_CreatedAt (clamp_limit limit) (clamp_offset off) ?l)"
    using assms
    by (auto simp: ListCards_service_def postgres_cards_def ListCards_def exec_stmt_def sql_list_def
        split: fault.splits)
  have "set (page_newest c_CreatedAt (clamp_limit limit) (clamp_offset off) ?l) \<subseteq> set ?l"
    by (rule page_newest_subset)
  moreover have "int (length (page_newest c_CreatedAt (clamp_limit limit) (clamp_offset off) ?l)) \<le> 500"
    using page_newest_length [of "clamp_limit limit" c_CreatedAt "clamp_offset off" ?l]
      clamp_bounds(1,2) [of limit] by linarith
  ultimately show ?thesis unfolding cs by (auto simp: card_response_def)
qed

end
