(* ===== verification/Http_Server.thy ===== *)
theory Http_Server
  imports Issuer_Server Card_Service
begin

text \<open>
  internal/acquirer/http.go: the HTTP handlers, from the request gin has bound to the status and
  body they answer with, and the audit record of a transaction. Binding a JSON body is gin's: a
  handler receives the bound value, or \<open>None\<close> where \<open>ShouldBindJSON\<close> failed.

  \<open>handleTransaction\<close> reaches the issuer through the switch. The locale \<open>issuer_link\<close> states what it
  relies on: an answer is one the issuer's \<open>HandleHex\<close> gave to these very bytes, and without an
  answer the issuer may or may not have handled them. Its interpretation is one call's way
  through \<open>sendToIssuer\<close>, the frames of both ends and the correlation check.
\<close>

section \<open>Answers\<close>

datatype json =
    JError string
  | JCard CardResponse
  | JCards "CardResponse list"
  | JDeleted
  | JAnswer string string ISOMessage
  | JAcquirerTxs "AcquirerTransaction list"
  | JIssuerTxs "IssuerTransaction list"

type_synonym http_answer = "nat \<times> json"

definition page_param :: "int \<Rightarrow> string \<Rightarrow> int" where
  "page_param d v =
     (let t = trim_space v in
      if t \<noteq> [] then (case atoi t of Some n \<Rightarrow> n | None \<Rightarrow> d) else d)"

section \<open>Cards and transaction lists\<close>

definition handleCreateCard ::
  "'s CardStore \<Rightarrow> query_env \<Rightarrow> CreateCardRequest option \<Rightarrow> 's \<Rightarrow> http_answer \<times> 's" where
  "handleCreateCard ops q body s =
     (case body of
        None \<Rightarrow> ((400, JError ''invalid request JSON''), s)
      | Some req \<Rightarrow>
          (case CreateCard_service ops q req s of
             (Inl e, s') \<Rightarrow> ((422, JError (error_text e)), s')
           | (Inr resp, s') \<Rightarrow> ((201, JCard resp), s')))"

definition handleListCards ::
  "'s CardStore \<Rightarrow> query_env \<Rightarrow> string \<Rightarrow> string \<Rightarrow> 's \<Rightarrow> http_answer \<times> 's" where
  "handleListCards ops q qlimit qoffset s =
     (case ListCards_service ops q (page_param 50 qlimit) (page_param 0 qoffset) s of
        (Inl e, s') \<Rightarrow> ((502, JError (error_text e)), s')
      | (Inr resp, s') \<Rightarrow> ((200, JCards resp), s'))"

definition handleUpdateCard ::
  "'s CardStore \<Rightarrow> query_env \<Rightarrow> query_env \<Rightarrow> string \<Rightarrow> UpdateCardRequest option \<Rightarrow> 's \<Rightarrow>
   http_answer \<times> 's" where
  "handleUpdateCard ops q q' i body s =
     (case body of
        None \<Rightarrow> ((400, JError ''invalid request JSON''), s)
      | Some req \<Rightarrow>
          (case UpdateCard_service ops q q' i req s of
             (Inl e, s') \<Rightarrow> ((422, JError (error_text e)), s')
           | (Inr resp, s') \<Rightarrow> ((200, JCard resp), s')))"

definition handleDeleteCard ::
  "'s CardStore \<Rightarrow> query_env \<Rightarrow> string \<Rightarrow> 's \<Rightarrow> http_answer \<times> 's" where
  "handleDeleteCard ops q i s =
     (case DeleteCard_service ops q i s of
        (Inl e, s') \<Rightarrow> ((422, JError (error_text e)), s')
      | (Inr _, s') \<Rightarrow> ((200, JDeleted), s'))"

definition handleTopUpCard ::
  "'s CardStore \<Rightarrow> query_env \<Rightarrow> query_env \<Rightarrow> string \<Rightarrow> int64 option \<Rightarrow> 's \<Rightarrow> http_answer \<times> 's" where
  "handleTopUpCard ops q q' i body s =
     (case body of
        None \<Rightarrow> ((400, JError ''amount must be a positive integer''), s)
      | Some amount \<Rightarrow>
          if amount \<le> 0 then ((400, JError ''amount must be a positive integer''), s)
          else (case TopUp ops q q' i amount s of
                  (Inl e, s') \<Rightarrow> ((422, JError (error_text e)), s')
                | (Inr resp, s') \<Rightarrow> ((200, JCard resp), s')))"

definition handleListTransactions ::
  "query_env \<Rightarrow> string \<Rightarrow> string \<Rightarrow> acq_txs \<Rightarrow> http_answer \<times> acq_txs" where
  "handleListTransactions q qlimit qoffset t =
     (case ListAcquirerTransactions q (page_param 50 qlimit) (page_param 0 qoffset) t of
        (Inl e, t') \<Rightarrow> ((502, JError (error_text e)), t')
      | (Inr txs, t') \<Rightarrow> ((200, JAcquirerTxs txs), t'))"

text \<open>
  The store an acquirer with two databases is started with holds no issuer repository: the
  interface value wraps a nil pointer, and the call panics in the method (gin's \<open>Recovery\<close> turns
  that into a 500).
\<close>

definition handleListIssuerTransactions ::
  "bool \<Rightarrow> query_env \<Rightarrow> string \<Rightarrow> string \<Rightarrow> iss_txs \<Rightarrow> http_answer outcome \<times> iss_txs" where
  "handleListIssuerTransactions repo_nil q qlimit qoffset t =
     (if repo_nil then (Panic ''invalid memory address or nil pointer dereference'', t)
      else case ListIssuerTransactions q (page_param 50 qlimit) (page_param 0 qoffset) t of
        (Inl e, t') \<Rightarrow> (Return (502, JError (error_text e)), t')
      | (Inr txs, t') \<Rightarrow> (Return (200, JIssuerTxs txs), t'))"

section \<open>A transaction\<close>

record 's acquirer =
  aq_link :: 's
  aq_audit :: "AcquirerTransaction list"

text \<open>\<open>NewHTTPServer\<close>: the card service over the store and an empty audit channel.\<close>

definition NewHTTPServer :: "'c CardStore option \<Rightarrow> 's \<Rightarrow> ('c CardStore \<times> 's acquirer) outcome" where
  "NewHTTPServer appStore link =
     (if appStore = None then Panic ''acquirer HTTP server: store is nil - database is required''
      else case NewCardService appStore of
        Panic p \<Rightarrow> Panic p
      | Return cardSvc \<Rightarrow> Return (cardSvc, \<lparr>aq_link = link, aq_audit = []\<rparr>))"

definition trimmed :: "string \<Rightarrow> string option" where
  "trimmed v = (if trim_space v \<noteq> [] then Some (trim_space v) else None)"

definition acquirer_tx ::
  "ISOMessage \<Rightarrow> string option \<Rightarrow> string option \<Rightarrow> string \<Rightarrow> string option \<Rightarrow> AcquirerTransaction" where
  "acquirer_tx req hexReq hexResp status responseCode =
     (let amount = (case ParseAmount12 (AmountTrn req) of Inl _ \<Rightarrow> 0 | Inr a \<Rightarrow> a)
      in \<lparr>at_ID = [], at_STAN = trim_space (STAN req), at_RRN = None,
          at_MTI = trim_space (MTI req), at_PANMasked = MaskPAN (PAN req), at_Amount = amount,
          at_CurrencyCode = trim_space (CurCodeTrn req),
          at_TerminalID = trimmed (TerminalID req), at_MerchantID = trimmed (MerchantID req),
          at_Status = status, at_ResponseCode = responseCode,
          at_RequestHex = hexReq, at_ResponseHex = hexResp,
          at_CreatedAt = 0, at_UpdatedAt = 0\<rparr>)"

definition asyncLogAcquirerTx ::
  "ISOMessage \<Rightarrow> string option \<Rightarrow> string option \<Rightarrow> string \<Rightarrow> string option \<Rightarrow> 's acquirer \<Rightarrow> 's acquirer" where
  "asyncLogAcquirerTx req hexReq hexResp status responseCode st =
     st\<lparr>aq_audit := audit_offer (acquirer_tx req hexReq hexResp status responseCode) (aq_audit st)\<rparr>"

definition handleTransaction ::
  "'m iso_lib \<Rightarrow> ('e \<Rightarrow> byte list \<Rightarrow> 's \<Rightarrow> (go_error + byte list) \<times> 's) \<Rightarrow> 'e \<Rightarrow>
   ISOMessage option \<Rightarrow> 's acquirer \<Rightarrow> http_answer \<times> 's acquirer" where
  "handleTransaction lib request env body st =
     (case body of
        None \<Rightarrow> ((400, JError ''invalid ISOMessage JSON''), st)
      | Some req \<Rightarrow>
     (case PackMessageToHex lib (Some req) of
        Inl e \<Rightarrow> ((422, JError (''ISO pack error: '' @ error_text e)), st)
      | Inr hexReq \<Rightarrow>
     (case hex_decode hexReq of
        Inl e \<Rightarrow> ((400, JError (''hex decode error: '' @ error_text e)), st)
      | Inr rawISOBytes \<Rightarrow>
     (case request env rawISOBytes (aq_link st) of
        (Inl e, l) \<Rightarrow>
          ((502, JError (''switch communication error: '' @ error_text e)),
           asyncLogAcquirerTx req (Some hexReq) None ''ERROR'' None (st\<lparr>aq_link := l\<rparr>))
      | (Inr response, l) \<Rightarrow>
          let hexResp = hex_encode response; st' = st\<lparr>aq_link := l\<rparr> in
          (case ParseHexToMessage lib hexResp of
             Inl e \<Rightarrow>
               ((502, JError (''issuer response parse error: '' @ error_text e)),
                asyncLogAcquirerTx req (Some hexReq) (Some hexResp) ''ERROR'' None st')
           | Inr respMsg \<Rightarrow>
               let status = (if RespCode respMsg = ''00'' then ''APPROVED'' else ''DECLINED'')
               in ((200, JAnswer hexReq hexResp respMsg),
                   asyncLogAcquirerTx req (Some hexReq) (Some hexResp) status
                     (Some (RespCode respMsg)) st'))))))"

text \<open>The decoding of the packed hex never fails, so the answer 400 means a bad body.\<close>

lemma PackMessageToHex_decodes:
  assumes "PackMessageToHex lib (Some req) = Inr h"
  obtains bs where "hex_decode h = Inr bs" "hex_encode bs = h"
  using PackMessageToHex_bytes [OF assms] by auto

lemma handleTransaction_status:
  assumes "handleTransaction lib request env body st = ((code, j), st')"
  shows "code \<in> {200, 400, 422, 502}" and "code = 400 \<longleftrightarrow> body = None"
    and "code = 200 \<longleftrightarrow> (\<exists>hq hr m. j = JAnswer hq hr m)"
proof -
  have "code \<in> {200, 400, 422, 502} \<and> (code = 400 \<longleftrightarrow> body = None) \<and>
    (code = 200 \<longleftrightarrow> (\<exists>hq hr m. j = JAnswer hq hr m))"
  proof (cases body)
    case (Some req)
    show ?thesis
    proof (cases "PackMessageToHex lib (Some req)")
      case (Inr h)
      then obtain bs where bs: "hex_decode h = Inr bs" by (rule PackMessageToHex_decodes)
      obtain x l where "request env bs (aq_link st) = (x, l)" by force
      with assms Some Inr bs show ?thesis
        by (cases x) (auto simp: handleTransaction_def Let_def split: sum.splits)
    qed (use assms Some in \<open>auto simp: handleTransaction_def\<close>)
  qed (use assms in \<open>auto simp: handleTransaction_def\<close>)
  then show "code \<in> {200, 400, 422, 502}" and "code = 400 \<longleftrightarrow> body = None"
    and "code = 200 \<longleftrightarrow> (\<exists>hq hr m. j = JAnswer hq hr m)" by blast+
qed

section \<open>The link to the issuer\<close>

text \<open>
  Relative to the issuer's side: \<open>handle f hex s\<close> is what its \<open>HandleHex\<close> answers (the response
  as hex and message, or an error) and the state after. \<open>fits\<close> are the messages a frame can carry
  without its 16-bit length wrapping.
\<close>

locale issuer_link =
  fixes request :: "'e \<Rightarrow> byte list \<Rightarrow> 's \<Rightarrow> (go_error + byte list) \<times> 's"
    and handle :: "'f \<Rightarrow> string \<Rightarrow> 's \<Rightarrow> (go_error + string \<times> ISOMessage) \<times> 's"
    and fits :: "byte list \<Rightarrow> bool"
  assumes answered: "fits raw \<Longrightarrow> request e raw s = (Inr resp, s') \<Longrightarrow>
      \<exists>f h m bs. handle f (hex_encode raw) s = (Inr (h, m), s') \<and> h = hex_encode bs \<and>
        (fits bs \<longrightarrow> resp = bs)"
    and unanswered: "fits raw \<Longrightarrow> request e raw s = (Inl err, s') \<Longrightarrow>
      s' = s \<or> (\<exists>f x. handle f (hex_encode raw) s = (x, s'))"
begin

text \<open>
  A 200 carries the issuer's own answer to the request's bytes: its hex is the response hex of
  the issuer, and the message in the body is what the issuer's hex parses to. The audit record
  repeats its code.
\<close>

lemma transaction_answered:
  assumes "handleTransaction lib request env (Some req) st = ((200, JAnswer hq hr m), st')"
    and "\<And>bs. hex_decode hq = Inr bs \<Longrightarrow> fits bs"
  shows "PackMessageToHex lib (Some req) = Inr hq \<and> ParseHexToMessage lib hr = Inr m \<and>
    (\<exists>f bs r. handle f hq (aq_link st) = (Inr (hex_encode bs, r), aq_link st') \<and>
       (fits bs \<longrightarrow> hr = hex_encode bs))"
proof -
  obtain h where h: "PackMessageToHex lib (Some req) = Inr h"
    using assms by (cases "PackMessageToHex lib (Some req)") (auto simp: handleTransaction_def)
  then obtain bs where bs: "hex_decode h = Inr bs" "hex_encode bs = h"
    by (rule PackMessageToHex_decodes)
  obtain x l where x: "request env bs (aq_link st) = (x, l)" by force
  show ?thesis
  proof (cases x)
    case (Inl e)
    with assms(1) h bs x show ?thesis by (simp add: handleTransaction_def)
  next
    case (Inr resp)
    have q: "hq = h" "hr = hex_encode resp" "ParseHexToMessage lib hr = Inr m" "aq_link st' = l"
      using assms(1) h bs(1) x Inr
      by (auto simp: handleTransaction_def asyncLogAcquirerTx_def Let_def split: sum.splits)
    have "fits bs" using assms(2) [of bs] bs(1) q(1) by simp
    from answered [OF this x [unfolded Inr]] obtain f r bs' where
      f: "handle f (hex_encode bs) (aq_link st) = (Inr (hex_encode bs', r), l)"
        "fits bs' \<longrightarrow> resp = bs'" by blast
    with h bs q show ?thesis by auto
  qed
qed

text \<open>Whatever a transaction answers, the issuer handled the request's hex once or not at all.\<close>

lemma transaction_at_most_once:
  assumes "handleTransaction lib request env (Some req) st = (x, st')"
    and "\<And>hq bs. PackMessageToHex lib (Some req) = Inr hq \<Longrightarrow> hex_decode hq = Inr bs \<Longrightarrow> fits bs"
  shows "aq_link st' = aq_link st \<or>
    (\<exists>hq f y. PackMessageToHex lib (Some req) = Inr hq \<and> handle f hq (aq_link st) = (y, aq_link st'))"
proof (cases "PackMessageToHex lib (Some req)")
  case (Inl e)
  with assms(1) show ?thesis by (auto simp: handleTransaction_def)
next
  case (Inr h)
  then obtain bs where bs: "hex_decode h = Inr bs" "hex_encode bs = h"
    by (rule PackMessageToHex_decodes)
  obtain z l where z: "request env bs (aq_link st) = (z, l)" by force
  have fit: "fits bs" using assms(2) Inr bs(1) by blast
  have l: "aq_link st' = l"
    using assms(1) Inr bs z
    by (cases z) (auto simp: handleTransaction_def asyncLogAcquirerTx_def Let_def split: sum.splits)
  show ?thesis
  proof (cases z)
    case (Inl e)
    from unanswered [OF fit z [unfolded Inl]] Inr bs(2) l show ?thesis by auto
  next
    case ok: (Inr resp)
    from answered [OF fit z [unfolded ok]] Inr bs(2) l show ?thesis by auto
  qed
qed

end

section \<open>One call through the switch\<close>

text \<open>
  The fate of a call, beside the fate of its writes: whether the issuer drops the frame (pool
  saturated, deadline passed before the handling), and whether the answer is late or lost (which
  stands for the timer and for a cancelled context too). A write that fails is taken to deliver
  no whole frame: Go's TCP write reports an error only when it wrote fewer bytes than it was
  given, and the connection is broken then.
\<close>

record link_env =
  le_send :: send_env
  le_pool :: nat
  le_index :: nat
  le_corr :: u32
  le_dropped :: bool
  le_late :: bool
  le_issuer :: auth_env

definition err_timeout :: go_error where
  "err_timeout = Errorf ''transaction timeout''"

definition HandleTerminalRequest ::
  "'m iso_lib \<Rightarrow> 's CardStore \<Rightarrow> link_env \<Rightarrow> byte list \<Rightarrow> 's issuer \<Rightarrow> (go_error + byte list) \<times> 's issuer" where
  "HandleTerminalRequest lib ops env rawISO st =
     (case sendToIssuer (le_send env) (le_pool env) rawISO (le_corr env) (le_index env) of
        (Some e, _) \<Rightarrow> (Inl (Wrapf ''failed to send to issuer'' e), st)
      | (None, _, writes) \<Rightarrow>
          (case readTPDUFrame \<lparr>in_bytes = snd (last writes), in_end = EOF\<rparr> of
             (Inl _, _) \<Rightarrow> (Inl err_timeout, st)
           | (Inr (tpdu, hexReq), _) \<Rightarrow>
               if le_dropped env then (Inl err_timeout, st)
               else (case HandleHex lib (Some ops) (le_issuer env) hexReq st of
                  (Inl _, st') \<Rightarrow> (Inl err_timeout, st')
                | (Inr (hexResp, _), st') \<Rightarrow>
                    (case writeTPDUFrame hexResp tpdu of
                       Inl _ \<Rightarrow> (Inl err_timeout, st')
                     | Inr pkt \<Rightarrow>
                         if le_late env then (Inl err_timeout, st')
                         else (case readTPDUPacket \<lparr>in_bytes = pkt, in_end = EOF\<rparr> of
                            (Inl _, _) \<Rightarrow> (Inl err_timeout, st')
                          | (Inr packet, _) \<Rightarrow>
                              if length packet < 5 \<or> packet_corrID packet \<noteq> le_corr env
                              then (Inl err_timeout, st')
                              else (Inr (drop 5 packet), st'))))))"


text \<open>
  The whole messages the link carries. A longer request would go out behind the low 16 bits of
  its length.
\<close>

definition fits_frame :: "byte list \<Rightarrow> bool" where
  "fits_frame bs \<longleftrightarrow> length bs < 65531"

lemma sendToIssuer_last:
  assumes "sendToIssuer env ps raw c i = (None, j, ws)"
  shows "ws \<noteq> [] \<and> snd (last ws) = request_packet raw c"
proof -
  have "r = None \<Longrightarrow> ws \<noteq> [] \<and> snd (last ws) = pkt"
    if "send_loop n env ps pkt i e = (r, j, ws)" for n pkt i e r j ws
    using that
  proof (induction n arbitrary: i e r j ws)
    case (Suc n)
    then show ?case
      by (fastforce simp: Let_def split: if_splits option.splits prod.splits)
  qed simp
  then show ?thesis using assms unfolding sendToIssuer_def by blast
qed

lemma readTPDUFrame_request:
  assumes "fits_frame raw" "readTPDUFrame \<lparr>in_bytes = request_packet raw c, in_end = EOF\<rparr> = (Inr (tpdu, h), r)"
  shows "tpdu = tpdu_header c \<and> h = hex_encode raw"
proof (cases "length raw \<le> 8187")
  case True
  with request_on_the_wire [OF True, of c "[]" EOF] assms(2) show ?thesis by simp
next
  case False
  with assms oversized_request_rejected [of raw c "[]" EOF] show ?thesis
    by (simp add: fits_frame_def)
qed

lemma readTPDUPacket_response:
  assumes "fits_frame bs" "readTPDUPacket \<lparr>in_bytes = frame (tpdu_header c @ bs), in_end = EOF\<rparr> = (Inr p, r)"
  shows "p = tpdu_header c @ bs"
proof (cases "length bs \<le> 8187")
  case True
  with readTPDUPacket_frame [of "tpdu_header c @ bs" "[]" EOF] assms(2) show ?thesis by simp
next
  case False
  let ?n = "5 + length bs"
  have u: "unat (of_nat ?n :: u16) = ?n" using assms(1) by (simp only: unat_of_nat fits_frame_def) simp
  have "(of_nat ?n :: u16) > max_packet"
    unfolding word_less_nat_alt u using False by (simp add: max_packet_def)
  with assms(2) show ?thesis
    by (simp add: readTPDUPacket_def frame_def ReadFull_append Let_def)
qed

lemma HandleHex_hex:
  "HandleHex lib engine env req st = (Inr (h, m), st') \<Longrightarrow> \<exists>bs. h = hex_encode bs"
  by (auto simp: HandleHex_def Let_def split: sum.splits prod.splits dest: PackMessageToHex_bytes)

lemma HandleTerminalRequest_cases:
  assumes "fits_frame raw" "HandleTerminalRequest lib ops env raw st = (x, st')"
  shows "(\<exists>e. x = Inl e) \<and> st' = st \<or>
    (\<exists>y. HandleHex lib (Some ops) (le_issuer env) (hex_encode raw) st = (y, st') \<and>
      ((\<exists>e. x = Inl e) \<or> (\<exists>bs m resp. x = Inr resp \<and> y = Inr (hex_encode bs, m) \<and>
         (fits_frame bs \<longrightarrow> resp = bs))))"
proof -
  obtain r j ws where send: "sendToIssuer (le_send env) (le_pool env) raw (le_corr env) (le_index env)
      = (r, j, ws)" by (metis prod_cases3)
  show ?thesis
  proof (cases r)
    case (Some e)
    with assms(2) send show ?thesis by (auto simp: HandleTerminalRequest_def)
  next
    case None
    with sendToIssuer_last send have ws: "snd (last ws) = request_packet raw (le_corr env)" by blast
    obtain z u where z: "readTPDUFrame \<lparr>in_bytes = request_packet raw (le_corr env), in_end = EOF\<rparr> = (z, u)"
      by force
    show ?thesis
    proof (cases z)
      case (Inl e)
      with assms(2) send None ws z show ?thesis by (auto simp: HandleTerminalRequest_def)
    next
      case (Inr th)
      obtain t h where "th = (t, h)" by force
      with readTPDUFrame_request [OF assms(1)] z Inr
      have th: "th = (tpdu_header (le_corr env), hex_encode raw)" by blast
      obtain y st2 where y: "HandleHex lib (Some ops) (le_issuer env) (hex_encode raw) st = (y, st2)"
        by force
      note unf = assms(2) [unfolded HandleTerminalRequest_def send None prod.case option.case ws z Inr th
          sum.case y]
      show ?thesis
      proof (cases "le_dropped env")
        case True
        with unf show ?thesis by auto
      next
        case False
        show ?thesis
        proof (cases y)
          case (Inl e)
          with unf False y show ?thesis by auto
        next
          case ok: (Inr hm)
          obtain h m where hm: "hm = (h, m)" by force
          with HandleHex_hex y ok obtain bs where h: "h = hex_encode bs" by blast
          obtain p v where p: "readTPDUPacket
              \<lparr>in_bytes = frame (tpdu_header (le_corr env) @ bs), in_end = EOF\<rparr> = (p, v)" by force
          have st: "st' = st2"
            using unf False ok hm h p by (auto simp: writeTPDUFrame_frame split: if_splits sum.splits)
          have "\<exists>e. x = Inl e" if "\<exists>e. p = Inl e"
            using unf False ok hm h p that by (auto simp: writeTPDUFrame_frame split: if_splits)
          moreover have "(\<exists>e. x = Inl e) \<or> x = Inr (drop 5 q)" if "p = Inr q" for q
            using unf False ok hm h p that by (auto simp: writeTPDUFrame_frame split: if_splits)
          moreover have "drop 5 q = bs" if "p = Inr q" "fits_frame bs" for q
            using readTPDUPacket_response [OF that(2) p [unfolded that(1)]] by simp
          ultimately have "(\<exists>e. x = Inl e) \<or> (\<exists>resp. x = Inr resp \<and> (fits_frame bs \<longrightarrow> resp = bs))"
            by (cases p) blast+
          with st y ok hm h show ?thesis by auto
        qed
      qed
    qed
  qed
qed

text \<open>The issuer's side of the interpretation, for any library and card store.\<close>

definition issuer_handle ::
  "'m iso_lib \<Rightarrow> 's CardStore \<Rightarrow> auth_env \<Rightarrow> string \<Rightarrow> 's issuer \<Rightarrow>
   (go_error + string \<times> ISOMessage) \<times> 's issuer" where
  "issuer_handle lib ops f hexReq st = HandleHex lib (Some ops) f hexReq st"

interpretation link: issuer_link "HandleTerminalRequest lib ops" "issuer_handle lib ops" fits_frame
  for lib :: "'m iso_lib" and ops :: "'s CardStore"
proof (unfold_locales, unfold issuer_handle_def)
  fix raw e resp and s s' :: "'s issuer"
  assume "fits_frame raw" "HandleTerminalRequest lib ops e raw s = (Inr resp, s')"
  from HandleTerminalRequest_cases [OF this]
  show "\<exists>f h m bs. HandleHex lib (Some ops) f (hex_encode raw) s = (Inr (h, m), s') \<and>
      h = hex_encode bs \<and> (fits_frame bs \<longrightarrow> resp = bs)" by auto
next
  fix raw e err and s s' :: "'s issuer"
  assume "fits_frame raw" "HandleTerminalRequest lib ops e raw s = (Inl err, s')"
  from HandleTerminalRequest_cases [OF this]
  show "s' = s \<or> (\<exists>f x. HandleHex lib (Some ops) f (hex_encode raw) s = (x, s'))" by blast
qed

end
