(* ===== verification/End_To_End.thy ===== *)
theory End_To_End
  imports Http_Server
begin

text \<open>
  The whole path of a transaction: the acquirer's handler, the codec at both ends, the switch and
  its frames, the issuer's service, the engine and the card table. The library behind the codec
  stays a parameter with two documented properties: packing and unpacking invert each other
  (\<open>iso_lib_faithful\<close>), and a packed message is short enough for a frame (\<open>lib_fits\<close>; the fields of
  web/spec.json add up to far less).
\<close>

definition lib_fits :: "'m iso_lib \<Rightarrow> bool" where
  "lib_fits lib \<longleftrightarrow>
     (\<forall>m h bs. PackMessageToHex lib (Some m) = Inr h \<longrightarrow> hex_decode h = Inr bs \<longrightarrow> fits_frame bs)"

type_synonym acquirer_state = "cards issuer acquirer"

definition card_table :: "acquirer_state \<Rightarrow> cards" where
  "card_table st = is_store (aq_link st)"

definition transact ::
  "'m iso_lib \<Rightarrow> link_env \<Rightarrow> ISOMessage option \<Rightarrow> acquirer_state \<Rightarrow> http_answer \<times> acquirer_state" where
  "transact lib env body st = handleTransaction lib (HandleTerminalRequest lib postgres_cards) env body st"

lemma requested_bitmap [simp]: "requested (req\<lparr>Bitmap := b\<rparr>) = requested req"
  by (simp add: requested_def is_reversal_def split: sum.split)

lemma moves_bitmap [simp]: "moves_as_answered L (req\<lparr>Bitmap := b\<rparr>) = moves_as_answered L req"
  by (intro ext) (simp add: moves_as_answered_def)

lemma answers_echo:
  "answers env req resp dec \<Longrightarrow> STAN resp = STAN req \<and> PAN resp = PAN req \<and> AmountTrn resp = AmountTrn req"
  by (auto simp: answers_def)

text \<open>The record a completed transaction offers to the acquirer's audit channel.\<close>

lemma transaction_audited:
  assumes "handleTransaction lib request env (Some req) st = ((200, JAnswer hq hr m), st')"
  shows "aq_audit st' = audit_offer (acquirer_tx req (Some hq) (Some hr)
      (if RespCode m = ''00'' then ''APPROVED'' else ''DECLINED'') (Some (RespCode m))) (aq_audit st)"
proof -
  obtain h where h: "PackMessageToHex lib (Some req) = Inr h"
    using assms by (cases "PackMessageToHex lib (Some req)") (auto simp: handleTransaction_def)
  then obtain bs where bs: "hex_decode h = Inr bs" by (rule PackMessageToHex_decodes)
  obtain x l where "request env bs (aq_link st) = (x, l)" by force
  with assms h bs show ?thesis
    by (cases x) (auto simp: handleTransaction_def asyncLogAcquirerTx_def Let_def split: sum.splits)
qed

lemma transact_answered:
  assumes "iso_lib_faithful lib" "lib_fits lib" "table_ok (card_table st)"
    and "transact lib env (Some req) st = ((200, JAnswer hq hr m), st')"
  shows "table_ok (card_table st') \<and>
    moves_as_answered (balances (card_table st)) req (RespCode m) (balances (card_table st')) \<and>
    STAN m = STAN req \<and> PAN m = PAN req \<and> AmountTrn m = AmountTrn req"
proof -
  have fits: "fits_frame bs" if "PackMessageToHex lib (Some x) = Inr h" "hex_decode h = Inr bs" for x h bs
    using assms(2) that unfolding lib_fits_def by blast
  have call: "handleTransaction lib (HandleTerminalRequest lib postgres_cards) env (Some req) st =
      ((200, JAnswer hq hr m), st')" using assms(4) by (simp add: transact_def)
  have q: "PackMessageToHex lib (Some req) = Inr hq"
    using call by (cases "PackMessageToHex lib (Some req)")
      (auto simp: handleTransaction_def Let_def split: sum.splits prod.splits)
  have "fits_frame bs" if "hex_decode hq = Inr bs" for bs using fits [OF q that] .
  from link.transaction_answered [OF call this] obtain f bs r where
    m: "ParseHexToMessage lib hr = Inr m"
    and f: "HandleHex lib (Some postgres_cards) f hq (aq_link st) = (Inr (hex_encode bs, r), aq_link st')"
    and hr: "fits_frame bs \<longrightarrow> hr = hex_encode bs"
    unfolding issuer_handle_def by blast
  have parsed: "ParseHexToMessage lib hq = Inr (req\<lparr>Bitmap := []\<rparr>)"
    using pack_parse [OF assms(1) q] .
  from HandleHex_replyD [OF f] obtain req' dec where
    r: "ParseHexToMessage lib hq = Inr req'" "answers f req' r dec"
      "PackMessageToHex lib (Some r) = Inr (hex_encode bs)" by blast
  have req': "req' = req\<lparr>Bitmap := []\<rparr>" using r(1) parsed by simp
  have "fits_frame bs" using fits [OF r(3)] by simp
  with hr m pack_parse [OF assms(1) r(3)] have m': "m = r\<lparr>Bitmap := []\<rparr>" by simp
  from pg.handle_money [OF _ f] assms(3) parsed have
    "table_ok (card_table st')"
    "moves_as_answered (balances (card_table st)) req (RespCode r) (balances (card_table st'))"
    by (auto simp: card_table_def)
  moreover have "STAN m = STAN req \<and> PAN m = PAN req \<and> AmountTrn m = AmountTrn req"
    using answers_echo [OF r(2)] by (simp add: m' req')
  ultimately show ?thesis by (simp add: m')
qed

text \<open>
  Without an answer the client cannot tell what happened, but it is one of two things: nothing,
  or the whole requested movement.
\<close>

lemma transact_any:
  assumes "iso_lib_faithful lib" "lib_fits lib" "table_ok (card_table st)"
    and "transact lib env (Some req) st = (x, st')"
  shows "table_ok (card_table st') \<and>
    (balances (card_table st') = balances (card_table st) \<or>
     balances (card_table st') = move (balances (card_table st)) (PAN req) (requested req))"
proof -
  have fits: "fits_frame bs" if "PackMessageToHex lib (Some y) = Inr h" "hex_decode h = Inr bs" for y h bs
    using assms(2) that unfolding lib_fits_def by blast
  have "aq_link st' = aq_link st \<or>
      (\<exists>hq f y. PackMessageToHex lib (Some req) = Inr hq \<and>
         issuer_handle lib postgres_cards f hq (aq_link st) = (y, aq_link st'))"
    by (rule link.transaction_at_most_once [OF assms(4) [unfolded transact_def]]) (rule fits)
  then consider "aq_link st' = aq_link st"
    | hq f y where "PackMessageToHex lib (Some req) = Inr hq"
        "HandleHex lib (Some postgres_cards) f hq (aq_link st) = (y, aq_link st')"
    unfolding issuer_handle_def by blast
  then show ?thesis
  proof cases
    case 1
    with assms(3) show ?thesis by (simp add: card_table_def)
  next
    case 2
    have ok: "table_ok (is_store (aq_link st))" using assms(3) by (simp add: card_table_def)
    from pg.handle_any [OF ok 2(2)] pack_parse [OF assms(1) 2(1)] consider
      "is_store (aq_link st') = is_store (aq_link st)"
      | "is_store (aq_link st') =
          snd (Authorize postgres_cards f (Some (req\<lparr>Bitmap := []\<rparr>)) (is_store (aq_link st)))" by auto
    then show ?thesis
    proof cases
      case 1
      with assms(3) show ?thesis by (simp add: card_table_def)
    next
      case 2
      with pg.authorize_money [OF ok, of f "req\<lparr>Bitmap := []\<rparr>"] show ?thesis
        by (auto simp: card_table_def moves_as_answered_def split: if_splits)
    qed
  qed
qed

end
