(* ===== verification/Switch_Mux.thy ===== *)
theory Switch_Mux
  imports Switch
begin

text \<open>
  The concurrent part of internal/acquirer/switch.go: \<open>HandleTerminalRequest\<close> calls and the
  listeners of the pool's connections, as a step relation. A call is known by its number; its
  response channel has that number too. The three steps a call takes after registering are
  sending and one of the ways it ends; a listener that read a packet looks the correlation id
  up (\<open>Packet\<close>) and, in a second step, offers the payload to the channel it found, which may
  belong to a call that is over by then.
\<close>

section \<open>The state and its steps\<close>

record switch =
  sw_counter :: u32
  sw_calls :: nat
  sw_pending :: "u32 \<rightharpoonup> nat"
  sw_live :: "nat \<rightharpoonup> bool \<times> u32"
  sw_chan :: "nat \<rightharpoonup> byte list"
  sw_routing :: "(nat \<times> byte list) list"

definition switch_init :: switch where
  "switch_init = \<lparr>sw_counter = 0, sw_calls = 0, sw_pending = Map.empty, sw_live = Map.empty,
                  sw_chan = Map.empty, sw_routing = []\<rparr>"

datatype mux_event =
    Called nat
  | Sent nat
  | SendFailed nat
  | Packet "byte list"
  | Offered nat
  | Responded nat "byte list"
  | TimedOut nat
  | Cancelled nat

text \<open>\<open>defer s.pendingTransactions.Delete(corrID)\<close>, run by every way out.\<close>

definition finish :: "nat \<Rightarrow> u32 \<Rightarrow> switch \<Rightarrow> switch" where
  "finish h c s = s\<lparr>sw_live := (sw_live s)(h := None), sw_pending := (sw_pending s)(c := None)\<rparr>"

definition begin_call :: "switch \<Rightarrow> switch" where
  "begin_call s =
     (let corrID = sw_counter s + 1 in
      s\<lparr>sw_counter := corrID, sw_calls := sw_calls s + 1,
        sw_pending := (sw_pending s)(corrID \<mapsto> sw_calls s),
        sw_live := (sw_live s)(sw_calls s \<mapsto> (False, corrID))\<rparr>)"

text \<open>
  What a listener does with a packet it read: too short for a TPDU, no pending call, or the
  payload and the channel it is for.
\<close>

definition route :: "byte list \<Rightarrow> switch \<Rightarrow> switch" where
  "route packet s =
     (if length packet < 5 then s
      else case sw_pending s (packet_corrID packet) of
             None \<Rightarrow> s
           | Some h \<Rightarrow> s\<lparr>sw_routing := sw_routing s @ [(h, drop 5 packet)]\<rparr>)"

definition offer :: "nat \<Rightarrow> byte list \<Rightarrow> switch \<Rightarrow> switch" where
  "offer h msg s = (if sw_chan s h = None then s\<lparr>sw_chan := (sw_chan s)(h \<mapsto> msg)\<rparr> else s)"

inductive mux_step :: "mux_event \<Rightarrow> switch \<Rightarrow> switch \<Rightarrow> bool" where
  call: "mux_step (Called (sw_calls s)) s (begin_call s)"
| sent: "sw_live s h = Some (False, c) \<Longrightarrow>
    mux_step (Sent h) s (s\<lparr>sw_live := (sw_live s)(h \<mapsto> (True, c))\<rparr>)"
| failed: "sw_live s h = Some (False, c) \<Longrightarrow> mux_step (SendFailed h) s (finish h c s)"
| packet: "mux_step (Packet p) s (route p s)"
| offered: "sw_routing s = xs @ (h, msg) # ys \<Longrightarrow>
    mux_step (Offered h) s (offer h msg (s\<lparr>sw_routing := xs @ ys\<rparr>))"
| responded: "sw_live s h = Some (True, c) \<Longrightarrow> sw_chan s h = Some r \<Longrightarrow>
    mux_step (Responded h r) s (finish h c (s\<lparr>sw_chan := (sw_chan s)(h := None)\<rparr>))"
| timed_out: "sw_live s h = Some (True, c) \<Longrightarrow> mux_step (TimedOut h) s (finish h c s)"
| cancelled: "sw_live s h = Some (True, c) \<Longrightarrow> mux_step (Cancelled h) s (finish h c s)"

inductive_cases mux_stepE: "mux_step ev s s'"

inductive_simps mux_sent: "mux_step (Sent h) s s'"
inductive_simps mux_responded: "mux_step (Responded h r) s s'"

inductive mux_run :: "mux_event list \<Rightarrow> switch \<Rightarrow> bool" where
  start: "mux_run [] switch_init"
| step: "mux_run evs s \<Longrightarrow> mux_step ev s s' \<Longrightarrow> mux_run (evs @ [ev]) s'"

section \<open>The invariant\<close>

definition corr_of :: "nat \<Rightarrow> u32" where
  "corr_of h = of_nat (h + 1)"

lemma corr_of_inj:
  assumes "corr_of h = corr_of k" "h < 2 ^ 32" "k < 2 ^ 32"
  shows "h = k"
  using assms by (simp add: corr_of_def word_of_nat_eq_iff take_bit_eq_mod)

text \<open>A payload is an answer to call \<open>h\<close>: its packet carries the id of \<open>h\<close> and came after the call.\<close>

definition answer_to :: "mux_event list \<Rightarrow> nat \<Rightarrow> byte list \<Rightarrow> bool" where
  "answer_to evs h msg \<longleftrightarrow>
     (\<exists>pre mid post p. evs = pre @ Called h # mid @ Packet p # post \<and>
        5 \<le> length p \<and> packet_corrID p = corr_of h \<and> msg = drop 5 p)"

definition ends :: "nat \<Rightarrow> mux_event \<Rightarrow> bool" where
  "ends h ev \<longleftrightarrow> ev \<in> {SendFailed h, TimedOut h, Cancelled h} \<or> (\<exists>r. ev = Responded h r)"

definition mux_inv :: "mux_event list \<Rightarrow> switch \<Rightarrow> bool" where
  "mux_inv evs s \<longleftrightarrow>
     sw_counter s = of_nat (sw_calls s) \<and>
     (\<forall>h b c. sw_live s h = Some (b, c) \<longrightarrow> h < sw_calls s \<and> c = corr_of h \<and> sw_pending s c = Some h) \<and>
     (\<forall>c h. sw_pending s c = Some h \<longrightarrow> (\<exists>b. sw_live s h = Some (b, c))) \<and>
     (\<forall>h. h < sw_calls s \<longleftrightarrow> Called h \<in> set evs) \<and>
     (\<forall>(h, msg) \<in> set (sw_routing s). answer_to evs h msg) \<and>
     (\<forall>h msg. sw_chan s h = Some msg \<longrightarrow> answer_to evs h msg) \<and>
     (\<forall>h. length (filter (ends h) evs) + (if sw_live s h = None then 0 else 1) =
            (if h < sw_calls s then 1 else 0))"

lemma answer_to_snoc: "answer_to evs h msg \<Longrightarrow> answer_to (evs @ [ev]) h msg"
  unfolding answer_to_def by (metis append.assoc append_Cons)

lemma answer_to_packet:
  assumes "Called h \<in> set evs" "5 \<le> length p" "packet_corrID p = corr_of h"
  shows "answer_to (evs @ [Packet p]) h (drop 5 p)"
proof -
  obtain pre mid where "evs = pre @ Called h # mid" using assms(1) by (meson split_list)
  with assms show ?thesis unfolding answer_to_def
    by (intro exI [of _ pre] exI [of _ mid] exI [of _ "[]"] exI [of _ p]) simp
qed

lemma mux_inv_init: "mux_inv [] switch_init"
  by (simp add: mux_inv_def switch_init_def)

lemma mux_invD:
  assumes "mux_inv evs s"
  shows "sw_counter s = of_nat (sw_calls s)"
    and "sw_live s h = Some (b, c) \<Longrightarrow> h < sw_calls s \<and> c = corr_of h \<and> sw_pending s c = Some h"
    and "sw_pending s c = Some h \<Longrightarrow> \<exists>b. sw_live s h = Some (b, c)"
    and "h < sw_calls s \<longleftrightarrow> Called h \<in> set evs"
    and "(h, msg) \<in> set (sw_routing s) \<Longrightarrow> answer_to evs h msg"
    and "sw_chan s h = Some msg \<Longrightarrow> answer_to evs h msg"
    and "length (filter (ends h) evs) + (if sw_live s h = None then 0 else 1) =
            (if h < sw_calls s then 1 else (0 :: nat))"
  using assms unfolding mux_inv_def by blast+

lemma mux_invI:
  assumes "sw_counter s = of_nat (sw_calls s)"
    and "\<And>h b c. sw_live s h = Some (b, c) \<Longrightarrow> h < sw_calls s \<and> c = corr_of h \<and> sw_pending s c = Some h"
    and "\<And>c h. sw_pending s c = Some h \<Longrightarrow> \<exists>b. sw_live s h = Some (b, c)"
    and "\<And>h. h < sw_calls s \<longleftrightarrow> Called h \<in> set evs"
    and "\<And>h msg. (h, msg) \<in> set (sw_routing s) \<Longrightarrow> answer_to evs h msg"
    and "\<And>h msg. sw_chan s h = Some msg \<Longrightarrow> answer_to evs h msg"
    and "\<And>h. length (filter (ends h) evs) + (if sw_live s h = None then 0 else 1) =
            (if h < sw_calls s then 1 else (0 :: nat))"
  shows "mux_inv evs s"
  using assms unfolding mux_inv_def by blast

text \<open>The ways out share one lemma: the call ends once and its entry leaves the map.\<close>

lemma mux_inv_finish:
  assumes "mux_inv evs s" "sw_live s h = Some (b, c)" "ends h ev" "\<And>k. ev \<noteq> Called k"
    and "sw_calls s \<le> 2 ^ 32" "\<And>k msg. chan k = Some msg \<Longrightarrow> answer_to evs k msg"
  shows "mux_inv (evs @ [ev]) (finish h c (s\<lparr>sw_chan := chan\<rparr>))"
proof (rule mux_invI)
  note inv = mux_invD [OF assms(1)]
  have h: "h < sw_calls s" "c = corr_of h" using inv(2) [OF assms(2)] by simp_all
  show "sw_counter (finish h c (s\<lparr>sw_chan := chan\<rparr>)) =
      of_nat (sw_calls (finish h c (s\<lparr>sw_chan := chan\<rparr>)))"
    using inv(1) by (simp add: finish_def)
  fix k d b'
  assume "sw_live (finish h c (s\<lparr>sw_chan := chan\<rparr>)) k = Some (b', d)"
  then have k: "k \<noteq> h" "sw_live s k = Some (b', d)" by (auto simp: finish_def split: if_splits)
  note i = inv(2) [OF k(2)]
  have "d \<noteq> c"
    using i h k(1) assms(5) corr_of_inj [of k h] by (metis less_le_trans)
  with i show "k < sw_calls (finish h c (s\<lparr>sw_chan := chan\<rparr>)) \<and> d = corr_of k \<and>
      sw_pending (finish h c (s\<lparr>sw_chan := chan\<rparr>)) d = Some k"
    by (auto simp: finish_def)
next
  note inv = mux_invD [OF assms(1)]
  fix d k
  assume "sw_pending (finish h c (s\<lparr>sw_chan := chan\<rparr>)) d = Some k"
  then have d: "d \<noteq> c" "sw_pending s d = Some k" by (auto simp: finish_def split: if_splits)
  from inv(3) [OF d(2)] obtain b' where k: "sw_live s k = Some (b', d)" by blast
  with d(1) assms(2) have "k \<noteq> h" by auto
  with k show "\<exists>b'. sw_live (finish h c (s\<lparr>sw_chan := chan\<rparr>)) k = Some (b', d)"
    by (simp add: finish_def)
next
  note inv = mux_invD [OF assms(1)]
  fix k
  show "k < sw_calls (finish h c (s\<lparr>sw_chan := chan\<rparr>)) \<longleftrightarrow> Called k \<in> set (evs @ [ev])"
    using inv(4) [of k] assms(4) [of k] by (auto simp: finish_def)
  have "ends k ev \<longleftrightarrow> k = h" using assms(3) by (auto simp: ends_def)
  then show "length (filter (ends k) (evs @ [ev])) +
      (if sw_live (finish h c (s\<lparr>sw_chan := chan\<rparr>)) k = None then 0 else 1) =
      (if k < sw_calls (finish h c (s\<lparr>sw_chan := chan\<rparr>)) then 1 else (0 :: nat))"
    using inv(7) [of k] assms(2) by (auto simp: finish_def split: if_splits)
  fix msg
  show "answer_to (evs @ [ev]) k msg" if "(k, msg) \<in> set (sw_routing (finish h c (s\<lparr>sw_chan := chan\<rparr>)))"
    using that inv(5) by (auto simp: finish_def intro: answer_to_snoc)
  show "answer_to (evs @ [ev]) k msg" if "sw_chan (finish h c (s\<lparr>sw_chan := chan\<rparr>)) k = Some msg"
    using that assms(6) by (auto simp: finish_def intro: answer_to_snoc)
qed

lemma mux_inv_call:
  assumes "mux_inv evs s" "sw_calls s < 2 ^ 32"
  shows "mux_inv (evs @ [Called (sw_calls s)]) (begin_call s)"
proof (rule mux_invI)
  let ?c = "sw_counter s + 1" and ?n = "sw_calls s"
  note inv = mux_invD [OF assms(1)]
  have c: "?c = corr_of ?n" using inv(1) by (simp add: corr_of_def add.commute)
  show "sw_counter (begin_call s) = of_nat (sw_calls (begin_call s))"
    using inv(1) by (simp add: begin_call_def Let_def add.commute)
  fix k d b
  assume "sw_live (begin_call s) k = Some (b, d)"
  then consider "k = ?n" "d = ?c" | "k \<noteq> ?n" "sw_live s k = Some (b, d)"
    by (auto simp: begin_call_def Let_def split: if_splits)
  then show "k < sw_calls (begin_call s) \<and> d = corr_of k \<and> sw_pending (begin_call s) d = Some k"
  proof cases
    case 1
    with c show ?thesis by (simp add: begin_call_def Let_def)
  next
    case 2
    note i = inv(2) [OF 2(2)]
    have "d \<noteq> ?c" using i c 2(1) assms(2) corr_of_inj [of k ?n] by (metis less_trans)
    with i show ?thesis by (auto simp: begin_call_def Let_def)
  qed
next
  note inv = mux_invD [OF assms(1)]
  have fresh: "sw_live s (sw_calls s) = None"
    using inv(2) [of "sw_calls s"] by (cases "sw_live s (sw_calls s)") auto
  fix d k
  show "\<exists>b. sw_live (begin_call s) k = Some (b, d)" if "sw_pending (begin_call s) d = Some k"
    using that inv(3) [of d k] fresh by (auto simp: begin_call_def Let_def split: if_splits)
  fix k
  show "k < sw_calls (begin_call s) \<longleftrightarrow> Called k \<in> set (evs @ [Called (sw_calls s)])"
    using inv(4) [of k] by (auto simp: begin_call_def Let_def)
  have "\<not> ends k (Called (sw_calls s))" by (simp add: ends_def)
  then show "length (filter (ends k) (evs @ [Called (sw_calls s)])) +
      (if sw_live (begin_call s) k = None then 0 else 1) =
      (if k < sw_calls (begin_call s) then 1 else (0 :: nat))"
    using inv(7) [of k] fresh by (auto simp: begin_call_def Let_def)
  fix msg
  show "answer_to (evs @ [Called (sw_calls s)]) k msg" if "(k, msg) \<in> set (sw_routing (begin_call s))"
    using that inv(5) by (auto simp: begin_call_def Let_def intro: answer_to_snoc)
  show "answer_to (evs @ [Called (sw_calls s)]) k msg" if "sw_chan (begin_call s) k = Some msg"
    using that inv(6) by (auto simp: begin_call_def Let_def intro: answer_to_snoc)
qed

text \<open>The steps that leave the calls, the counter and the map as they are.\<close>

lemma mux_inv_quiet:
  assumes "mux_inv evs s" "sw_counter s' = sw_counter s" "sw_calls s' = sw_calls s"
    and "sw_pending s' = sw_pending s"
    and "\<And>k. map_option snd (sw_live s' k) = map_option snd (sw_live s k)"
    and "\<And>k. ev \<noteq> Called k" "\<And>k. \<not> ends k ev"
    and "\<And>k msg. (k, msg) \<in> set (sw_routing s') \<Longrightarrow> answer_to (evs @ [ev]) k msg"
    and "\<And>k msg. sw_chan s' k = Some msg \<Longrightarrow> answer_to (evs @ [ev]) k msg"
  shows "mux_inv (evs @ [ev]) s'"
proof (rule mux_invI)
  note inv = mux_invD [OF assms(1)]
  have opt: "(\<exists>b. x = Some (b, d)) \<longleftrightarrow> map_option snd x = Some d" for x :: "(bool \<times> u32) option" and d
  proof (cases x)
    case (Some a)
    then show ?thesis by (cases a) simp
  qed simp
  have live: "(\<exists>b. sw_live s' k = Some (b, d)) \<longleftrightarrow> (\<exists>b. sw_live s k = Some (b, d))" for k d
    unfolding opt assms(5) by (rule refl)
  have none: "sw_live s' k = None \<longleftrightarrow> sw_live s k = None" for k
    using assms(5) [of k] by (metis option.map_disc_iff)
  show "sw_counter s' = of_nat (sw_calls s')" using inv(1) assms(2,3) by simp
  show "k < sw_calls s' \<and> d = corr_of k \<and> sw_pending s' d = Some k"
    if "sw_live s' k = Some (b, d)" for k b d
    using inv(2) live [of k d] that assms(3,4) by metis
  show "\<exists>b. sw_live s' k = Some (b, d)" if "sw_pending s' d = Some k" for d k
    using inv(3) live [of k d] that assms(4) by simp
  show "k < sw_calls s' \<longleftrightarrow> Called k \<in> set (evs @ [ev])" for k
    using inv(4) [of k] assms(3) assms(6) [of k] by auto
  show "length (filter (ends k) (evs @ [ev])) + (if sw_live s' k = None then 0 else 1) =
      (if k < sw_calls s' then 1 else (0 :: nat))" for k
    using inv(7) [of k] assms(3) assms(7) [of k] by (simp add: none)
qed (use assms(8,9) in blast)+

lemma mux_step_inv:
  assumes "mux_step ev s s'" "mux_inv evs s" "sw_calls s < 2 ^ 32"
  shows "mux_inv (evs @ [ev]) s'"
proof -
  note chan = mux_invD(6) [OF assms(2)]
  from assms(1) show ?thesis
proof cases
  case call
  with mux_inv_call [OF assms(2,3)] show ?thesis by simp
next
  case (sent h c)
  show ?thesis unfolding sent
    by (rule mux_inv_quiet [OF assms(2)])
      (use sent mux_invD(5,6) [OF assms(2)] in \<open>auto simp: ends_def intro: answer_to_snoc\<close>)
next
  case (packet p)
  have r: "answer_to (evs @ [Packet p]) k msg"
    if "(k, msg) \<in> set (sw_routing (route p s))" for k msg
  proof (cases "(k, msg) \<in> set (sw_routing s)")
    case True
    with mux_invD(5) [OF assms(2)] show ?thesis by (blast intro: answer_to_snoc)
  next
    case False
    with that have new: "5 \<le> length p" "sw_pending s (packet_corrID p) = Some k" "msg = drop 5 p"
      by (auto simp: route_def split: if_splits option.splits)
    from mux_invD(3) [OF assms(2) new(2)] obtain b where
      live: "sw_live s k = Some (b, packet_corrID p)" by blast
    then have "Called k \<in> set evs" "packet_corrID p = corr_of k"
      using mux_invD(2) [OF assms(2) live] mux_invD(4) [OF assms(2)] by auto
    with new show ?thesis by (simp add: answer_to_packet)
  qed
  have same: "sw_counter (route p s) = sw_counter s" "sw_calls (route p s) = sw_calls s"
    "sw_pending (route p s) = sw_pending s" "sw_live (route p s) = sw_live s"
    "sw_chan (route p s) = sw_chan s"
    by (auto simp: route_def split: option.splits)
  show ?thesis unfolding packet
    by (rule mux_inv_quiet [OF assms(2)])
      (use r mux_invD(6) [OF assms(2)] in \<open>auto simp: same ends_def intro: answer_to_snoc\<close>)
next
  case (offered xs h msg ys)
  have "answer_to evs h msg" using mux_invD(5) [OF assms(2)] offered by simp
  then show ?thesis unfolding offered(1,2)
    by (intro mux_inv_quiet [OF assms(2)])
      (use mux_invD(5,6) [OF assms(2)] offered(3) in
        \<open>auto simp: offer_def ends_def split: if_splits intro: answer_to_snoc\<close>)
next
  case (failed h c)
  have "mux_inv (evs @ [ev]) (finish h c (s\<lparr>sw_chan := sw_chan s\<rparr>))"
    by (rule mux_inv_finish [OF assms(2) failed(3)])
      (use failed(1) chan assms(3) in \<open>auto simp: ends_def\<close>)
  with failed(2) show ?thesis by simp
next
  case (responded h c r)
  show ?thesis unfolding responded(2)
    by (rule mux_inv_finish [OF assms(2) responded(3)])
      (use responded(1) chan assms(3) in \<open>auto simp: ends_def split: if_splits\<close>)
next
  case (timed_out h c)
  have "mux_inv (evs @ [ev]) (finish h c (s\<lparr>sw_chan := sw_chan s\<rparr>))"
    by (rule mux_inv_finish [OF assms(2) timed_out(3)])
      (use timed_out(1) chan assms(3) in \<open>auto simp: ends_def\<close>)
  with timed_out(2) show ?thesis by simp
next
  case (cancelled h c)
  have "mux_inv (evs @ [ev]) (finish h c (s\<lparr>sw_chan := sw_chan s\<rparr>))"
    by (rule mux_inv_finish [OF assms(2) cancelled(3)])
      (use cancelled(1) chan assms(3) in \<open>auto simp: ends_def\<close>)
  with cancelled(2) show ?thesis by simp
qed
qed

lemma mux_step_calls: "mux_step ev s s' \<Longrightarrow> sw_calls s \<le> sw_calls s'"
  by (erule mux_stepE)
    (auto simp: begin_call_def route_def offer_def finish_def Let_def split: option.splits)

lemma mux_run_inv: "mux_run evs s \<Longrightarrow> sw_calls s < 2 ^ 32 \<Longrightarrow> mux_inv evs s"
proof (induction rule: mux_run.induct)
  case start
  show ?case by (rule mux_inv_init)
next
  case (step evs s ev s')
  have "sw_calls s < 2 ^ 32" using mux_step_calls [OF step.hyps(2)] step.prems by simp
  with step show ?case by (blast intro: mux_step_inv)
qed

section \<open>What calls get\<close>

text \<open>A complete run: one call, its packet, its answer.\<close>

definition ex_trace :: "mux_event list" where
  "ex_trace = [Called 0, Sent 0, Packet (tpdu_header 1 @ [7]), Offered 0, Responded 0 [7]]"

lemma ex_mux: "\<exists>s. mux_run ex_trace s \<and> sw_calls s = 1"
proof -
  note go = mux_run.step
  let ?s1 = "begin_call switch_init"
  have 1: "mux_run [Called 0] ?s1"
    using go [OF mux_run.start mux_step.call] by (simp add: switch_init_def)
  have 2: "mux_run [Called 0, Sent 0] (?s1\<lparr>sw_live := [0 \<mapsto> (True, 1)]\<rparr>)"
    using go [OF 1 mux_step.sent [where h = 0 and c = 1]] by (simp add: begin_call_def switch_init_def)
  have 3: "mux_run [Called 0, Sent 0, Packet (tpdu_header 1 @ [7])]
      (?s1\<lparr>sw_live := [0 \<mapsto> (True, 1)], sw_routing := [(0, [7])]\<rparr>)"
    using go [OF 2 mux_step.packet [where p = "tpdu_header 1 @ [7]"]]
    by (simp add: route_def begin_call_def switch_init_def)
  have 4: "mux_run [Called 0, Sent 0, Packet (tpdu_header 1 @ [7]), Offered 0]
      (?s1\<lparr>sw_live := [0 \<mapsto> (True, 1)], sw_chan := [0 \<mapsto> [7]]\<rparr>)"
    using go [OF 3 mux_step.offered [where xs = "[]" and ys = "[]" and h = 0 and msg = "[7]"]]
    by (simp add: offer_def begin_call_def switch_init_def)
  have "mux_run ex_trace (?s1\<lparr>sw_live := Map.empty, sw_pending := Map.empty\<rparr>)"
    using go [OF 4 mux_step.responded [where h = 0 and c = 1 and r = "[7]"]]
    by (simp add: ex_trace_def finish_def begin_call_def switch_init_def)
  moreover have "sw_calls (?s1\<lparr>sw_live := Map.empty, sw_pending := Map.empty\<rparr>) = 1"
    by (simp add: begin_call_def switch_init_def)
  ultimately show ?thesis by blast
qed

lemma run_answers:
  "mux_run evs s \<Longrightarrow> sw_calls s < 2 ^ 32 \<Longrightarrow> Responded h r \<in> set evs \<Longrightarrow> answer_to evs h r"
proof (induction rule: mux_run.induct)
  case (step evs s ev s')
  have lt: "sw_calls s < 2 ^ 32" using mux_step_calls [OF step.hyps(2)] step.prems(1) by simp
  show ?case
  proof (cases "Responded h r \<in> set evs")
    case True
    with step.IH lt show ?thesis by (blast intro: answer_to_snoc)
  next
    case False
    with step.prems(2) have "ev = Responded h r" by simp
    with step.hyps(2) have "sw_chan s h = Some r" by (auto simp: mux_responded)
    with mux_invD(6) [OF mux_run_inv [OF step.hyps(1) lt]] show ?thesis by (blast intro: answer_to_snoc)
  qed
qed simp

text \<open>
  C14. No call ever gets the answer of another: with fewer than 2^32 calls so far, the payload a
  call returned came in a packet that carried this call's correlation id and was read after the
  call had registered, however sends, listeners, late packets, timeouts and cancellations
  interleave.
\<close>

theorem responses_answer_calls:
  "mux_run evs s \<Longrightarrow> sw_calls s < 2 ^ 32 \<Longrightarrow> Responded h r \<in> set evs \<Longrightarrow> answer_to evs h r"
  by (rule run_answers)

theorem responses_answer_calls_witness: "answer_to ex_trace 0 [7]"
proof -
  obtain s where "mux_run ex_trace s" "sw_calls s = 1" using ex_mux by blast
  then show ?thesis by (intro responses_answer_calls [of ex_trace s]) (simp_all add: ex_trace_def)
qed

text \<open>
  C15. The map of pending transactions leaks nothing: it holds exactly the correlation ids of the
  calls in progress, each call ends at most once, and one that ended is gone from the map,
  whichever way it ended.
\<close>

theorem pending_are_live:
  assumes "mux_run evs s" "sw_calls s < 2 ^ 32"
  shows "(\<forall>c h. sw_pending s c = Some h \<longleftrightarrow> (\<exists>b. sw_live s h = Some (b, c))) \<and>
    (\<forall>h. Called h \<in> set evs \<longrightarrow>
       length (filter (ends h) evs) = (if sw_live s h = None then 1 else 0)) \<and>
    (\<forall>h. Called h \<notin> set evs \<longrightarrow> length (filter (ends h) evs) = 0 \<and> sw_live s h = None)"
proof (intro conjI allI impI)
  note inv = mux_invD [OF mux_run_inv [OF assms]]
  show "sw_pending s c = Some h \<longleftrightarrow> (\<exists>b. sw_live s h = Some (b, c))" for c h
    using inv(2,3) by blast
  show "length (filter (ends h) evs) = (if sw_live s h = None then 1 else 0)" if "Called h \<in> set evs" for h
    using inv(4) [of h] inv(7) [of h] that by (simp split: if_splits)
  show "length (filter (ends h) evs) = 0" "sw_live s h = None" if "Called h \<notin> set evs" for h
    using inv(4) [of h] inv(7) [of h] that by (simp_all split: if_splits)
qed

theorem pending_are_live_witness:
  "\<exists>s. mux_run ex_trace s \<and> sw_live s 0 = None \<and> length (filter (ends 0) ex_trace) = 1"
proof -
  obtain s where s: "mux_run ex_trace s" "sw_calls s = 1" using ex_mux by blast
  have "filter (ends 0) ex_trace = [Responded 0 [7]]" by (simp add: ex_trace_def ends_def)
  then have 1: "length (filter (ends 0) ex_trace) = 1" by simp
  have "sw_calls s < 2 ^ 32" "Called 0 \<in> set ex_trace" using s(2) by (simp_all add: ex_trace_def)
  from pending_are_live [OF s(1) this(1), THEN conjunct2, THEN conjunct1, rule_format, OF this(2)] 1
  have "sw_live s 0 = None" by (simp only: split: if_splits)
  with s(1) 1 show ?thesis by blast
qed

end
