(* ===== verification/Streams.thy ===== *)
theory Streams
  imports Tpdu
begin

text \<open>
  The unread bytes of a connection as what they carry: the frames of some bodies, written one
  after the other, and behind them, on a connection that broke, perhaps the beginning of one more.
  Reading takes the first body off and leaves the rest of the stream; cutting a stream anywhere
  leaves the first of its bodies; the beginning of a frame alone is never read as a frame.
\<close>

definition sound_body :: "byte list \<Rightarrow> bool" where
  "sound_body b \<longleftrightarrow> 0 < length b \<and> length b < 65536"

definition torn :: "byte list \<Rightarrow> bool" where
  "torn t \<longleftrightarrow> (\<exists>b m. sound_body b \<and> m < length (frame b) \<and> t = take m (frame b))"

definition carries :: "bool \<Rightarrow> byte list list \<Rightarrow> byte list \<Rightarrow> bool" where
  "carries broken bs s \<longleftrightarrow> (\<forall>b \<in> set bs. sound_body b) \<and>
     (\<exists>t. s = concat (map frame bs) @ t \<and> (t = [] \<or> broken \<and> torn t))"

lemma length_frame [simp]: "length (frame b) = 2 + length b"
  by (simp add: frame_def)

lemma frame_word: "sound_body b \<Longrightarrow> unat (of_nat (length b) :: u16) = length b"
  by (simp add: sound_body_def unat_of_nat)

text \<open>A frame at the front of a stream: if a read succeeds at all, it answers with its body.\<close>

lemma read_first:
  assumes "sound_body b" "readTPDUPacket \<lparr>in_bytes = frame b @ s, in_end = e\<rparr> = (Inr p, r)"
  shows "p = b \<and> in_bytes r = s"
  using assms frame_word [OF assms(1)]
  by (auto simp: readTPDUPacket_def frame_def ReadFull_append Let_def split: if_splits)

lemma read_torn:
  assumes "torn t"
  shows "readTPDUPacket \<lparr>in_bytes = t, in_end = e\<rparr> \<noteq> (Inr p, r)"
proof
  assume rd: "readTPDUPacket \<lparr>in_bytes = t, in_end = e\<rparr> = (Inr p, r)"
  obtain b m where b: "sound_body b" "m < length (frame b)" "t = take m (frame b)"
    using assms by (auto simp: torn_def)
  show False
  proof (cases "m < 2")
    case True
    with rd b(3) show ?thesis by (simp add: readTPDUPacket_def ReadFull_def)
  next
    case False
    then have t: "t = put_u16 (of_nat (length b)) @ take (m - 2) b"
      by (simp add: b(3) frame_def)
    have "\<not> length b \<le> m - 2" using b(2) False by simp
    then have "ReadFull (length b) \<lparr>in_bytes = take (m - 2) b, in_end = e\<rparr> =
        (Inl (if e = EOF \<and> take (m - 2) b \<noteq> [] then UnexpectedEOF else e), \<lparr>in_bytes = [], in_end = e\<rparr>)"
      by (simp add: ReadFull_def)
    with rd frame_word [OF b(1)] show ?thesis
      by (simp add: t readTPDUPacket_def ReadFull_append Let_def split: if_splits)
  qed
qed

lemma read_nothing [simp]: "readTPDUPacket \<lparr>in_bytes = [], in_end = e\<rparr> \<noteq> (Inr p, r)"
  by (simp add: readTPDUPacket_def ReadFull_def)

text \<open>The issuer's read is the same one, split into TPDU and message.\<close>

lemma readTPDUFrame_packet:
  "readTPDUFrame c = (Inr (tpdu, h), r) \<longleftrightarrow>
     (\<exists>p. readTPDUPacket c = (Inr p, r) \<and> 5 \<le> length p \<and> tpdu = take 5 p \<and> h = hex_encode (drop 5 p))"
  by (auto simp: readTPDUFrame_def readTPDUPacket_def Let_def split: sum.split prod.split)

section \<open>Streams\<close>

lemma carries_nil [simp]: "carries broken [] []"
  by (simp add: carries_def)

lemma carries_read:
  assumes "carries broken bs s" "readTPDUPacket \<lparr>in_bytes = s, in_end = e\<rparr> = (Inr p, r)"
  shows "\<exists>bs'. bs = p # bs' \<and> carries broken bs' (in_bytes r)"
proof (cases bs)
  case Nil
  with assms(1) obtain t where "s = t" "t = [] \<or> torn t" by (auto simp: carries_def)
  with assms(2) read_torn show ?thesis by auto
next
  case (Cons b bs')
  with assms(1) obtain t where t: "s = frame b @ concat (map frame bs') @ t" "t = [] \<or> broken \<and> torn t"
    and b: "sound_body b" "\<forall>b \<in> set bs'. sound_body b" by (auto simp: carries_def)
  from read_first [OF b(1) assms(2) [unfolded t(1)]] t(2) b(2) Cons show ?thesis
    by (auto simp: carries_def)
qed

lemma carries_write:
  "carries False bs s \<Longrightarrow> sound_body b \<Longrightarrow> carries broken (bs @ [b]) (s @ frame b)"
  by (auto simp: carries_def)

lemma carries_torn:
  "carries False bs s \<Longrightarrow> sound_body b \<Longrightarrow> m < length (frame b) \<Longrightarrow> carries True bs (s @ take m (frame b))"
  by (auto simp: carries_def torn_def)

lemma carries_breaks: "carries broken bs s \<Longrightarrow> carries True bs s"
  by (auto simp: carries_def)

lemma torn_cut:
  assumes "torn t"
  shows "torn (take m t)"
proof -
  obtain b k where "sound_body b" "k < length (frame b)" "t = take k (frame b)"
    using assms by (auto simp: torn_def)
  then show ?thesis unfolding torn_def by (intro exI [of _ b] exI [of _ "min m k"]) simp
qed

lemma carries_cut: "carries broken bs s \<Longrightarrow> \<exists>i. carries True (take i bs) (take m s)"
proof (induction bs arbitrary: s m)
  case Nil
  then obtain t where t: "s = t" "t = [] \<or> torn t" by (auto simp: carries_def)
  with torn_cut [of t m] show ?case by (auto simp: carries_def)
next
  case (Cons b bs)
  then obtain t where t: "s = frame b @ concat (map frame bs) @ t" "t = [] \<or> broken \<and> torn t"
    and b: "sound_body b" "\<forall>b \<in> set bs. sound_body b" by (auto simp: carries_def)
  show ?case
  proof (cases "m < length (frame b)")
    case True
    then have "take m s = take m (frame b)" by (simp add: t(1))
    with True b(1) show ?thesis by (intro exI [of _ 0]) (auto simp: carries_def torn_def)
  next
    case False
    from t(2) b(2) have "carries broken bs (concat (map frame bs) @ t)" by (auto simp: carries_def)
    from Cons.IH [OF this, of "m - length (frame b)"] obtain i where
      i: "carries True (take i bs) (take (m - length (frame b)) (concat (map frame bs) @ t))" by blast
    have "take m s = frame b @ take (m - length (frame b)) (concat (map frame bs) @ t)"
      unfolding t(1) take_append using False by simp
    with i b(1) show ?thesis by (intro exI [of _ "Suc i"]) (auto simp: carries_def)
  qed
qed

end
