(* ===== verification/Network.thy ===== *)
theory Network
  imports Switch_Mux End_To_End Streams
begin

text \<open>
  The two services with the connections between them, running concurrently: the acquirer's switch
  with all its calls and listeners, the issuer's server with all its connections and workers, and
  for every connection that was dialled the bytes written and not yet read, in each direction. A
  write appends its frame to the stream of one connection; a read takes what \<open>readTPDUFrame\<close> or
  \<open>readTPDUPacket\<close> consumes off the front and leaves the rest there for the next read, whatever
  it is. A write that fails leaves less than a whole frame and the connection broken; a connection
  that breaks loses any part of the bytes still under way and carries no new ones.

  The switch's three attempts at sending are \<open>TornRequest\<close> steps, one per failed write, followed
  by \<open>Sent\<close> or \<open>SendFailed\<close>; they may use different connections. A listener's read deadline that
  falls inside a frame is not a step here (\<open>Switch\<close> shows what it does to one connection).

  The lemmas show that a call that gets an answer gets the issuer's answer to its own request, that
  the issuer handles the request of a call at most once, and that both depend on the requests being
  short enough for their length field.
\<close>

section \<open>The system\<close>

record 's network =
  nw_switch :: switch
  nw_server :: "'s server"
  nw_dialled :: nat
  nw_broken :: "nat \<Rightarrow> bool"
  nw_out :: "nat \<Rightarrow> byte list"
  nw_back :: "nat \<Rightarrow> byte list"

datatype net_event =
    AtSwitch mux_event
  | AtServer server_event
  | Dialled
  | TornRequest nat
  | Broken nat

text \<open>The connections that take new bytes.\<close>

definition usable :: "'s network \<Rightarrow> nat \<Rightarrow> bool" where
  "usable n k \<longleftrightarrow> k < nw_dialled n \<and> \<not> nw_broken n k"

fun writes :: "mux_event \<Rightarrow> bool" where
  "writes (Sent _) = True"
| "writes _ = False"

fun reads_packet :: "mux_event \<Rightarrow> bool" where
  "reads_packet (Packet _) = True"
| "reads_packet _ = False"

text \<open>The job of a frame the server read, and the events with which it admits or drops one.\<close>

fun takes :: "job \<Rightarrow> server_event \<Rightarrow> bool" where
  "takes j (Admitted j') = (j' = j)"
| "takes j (Refused j') = (j' = j)"
| "takes j _ = False"

fun inner :: "server_event \<Rightarrow> bool" where
  "inner (Admitted _) = False"
| "inner (Refused _) = False"
| "inner (Replied _ _ _) = False"
| "inner _ = True"

text \<open>\<open>raw h\<close> is the request of call \<open>h\<close>, as the handler passed it to \<open>HandleTerminalRequest\<close>.\<close>

inductive net_step ::
  "'m iso_lib \<Rightarrow> 's CardStore \<Rightarrow> nat \<Rightarrow> (nat \<Rightarrow> byte list) \<Rightarrow> net_event \<Rightarrow> 's network \<Rightarrow> 's network \<Rightarrow> bool"
  for lib ops cap raw where
  dial: "net_step lib ops cap raw Dialled n (n\<lparr>nw_dialled := nw_dialled n + 1\<rparr>)"
| at_switch: "mux_step ev (nw_switch n) sw \<Longrightarrow> \<not> writes ev \<Longrightarrow> \<not> reads_packet ev \<Longrightarrow>
    net_step lib ops cap raw (AtSwitch ev) n (n\<lparr>nw_switch := sw\<rparr>)"
| send: "mux_step (Sent h) (nw_switch n) sw \<Longrightarrow> sw_live (nw_switch n) h = Some (b, c) \<Longrightarrow> usable n k \<Longrightarrow>
    net_step lib ops cap raw (AtSwitch (Sent h)) n
      (n\<lparr>nw_switch := sw, nw_out := (nw_out n)(k := nw_out n k @ request_packet (raw h) c)\<rparr>)"
| torn_request: "sw_live (nw_switch n) h = Some (False, c) \<Longrightarrow> usable n k \<Longrightarrow>
    m < length (request_packet (raw h) c) \<Longrightarrow>
    net_step lib ops cap raw (TornRequest h) n
      (n\<lparr>nw_broken := (nw_broken n)(k := True),
         nw_out := (nw_out n)(k := nw_out n k @ take m (request_packet (raw h) c))\<rparr>)"
| arrive: "readTPDUFrame \<lparr>in_bytes = nw_out n k, in_end = EOF\<rparr> = (Inr (tpdu, hexReq), r) \<Longrightarrow>
    takes \<lparr>j_conn = k, j_tpdu = tpdu, j_req = hexReq\<rparr> ev \<Longrightarrow>
    server_step lib ops cap ev (nw_server n) sv \<Longrightarrow>
    net_step lib ops cap raw (AtServer ev) n
      (n\<lparr>nw_server := sv, nw_out := (nw_out n)(k := in_bytes r)\<rparr>)"
| at_server: "server_step lib ops cap ev (nw_server n) sv \<Longrightarrow> inner ev \<Longrightarrow>
    net_step lib ops cap raw (AtServer ev) n (n\<lparr>nw_server := sv\<rparr>)"
| reply: "server_step lib ops cap (Replied j hexResp pkt) (nw_server n) sv \<Longrightarrow> usable n (j_conn j) \<Longrightarrow>
    net_step lib ops cap raw (AtServer (Replied j hexResp pkt)) n
      (n\<lparr>nw_server := sv, nw_back := (nw_back n)(j_conn j := nw_back n (j_conn j) @ pkt)\<rparr>)"
| torn_reply: "server_step lib ops cap (WriteError j e) (nw_server n) sv \<Longrightarrow> usable n (j_conn j) \<Longrightarrow>
    Handled j hexResp resp \<in> set (sv_pool (nw_server n)) \<Longrightarrow>
    writeTPDUFrame hexResp (j_tpdu j) = Inr pkt \<Longrightarrow> m < length pkt \<Longrightarrow>
    net_step lib ops cap raw (AtServer (WriteError j e)) n
      (n\<lparr>nw_server := sv, nw_broken := (nw_broken n)(j_conn j := True),
         nw_back := (nw_back n)(j_conn j := nw_back n (j_conn j) @ take m pkt)\<rparr>)"
| returned: "readTPDUPacket \<lparr>in_bytes = nw_back n k, in_end = EOF\<rparr> = (Inr p, r) \<Longrightarrow>
    mux_step (Packet p) (nw_switch n) sw \<Longrightarrow>
    net_step lib ops cap raw (AtSwitch (Packet p)) n
      (n\<lparr>nw_switch := sw, nw_back := (nw_back n)(k := in_bytes r)\<rparr>)"
| broke: "k < nw_dialled n \<Longrightarrow>
    net_step lib ops cap raw (Broken k) n
      (n\<lparr>nw_broken := (nw_broken n)(k := True), nw_out := (nw_out n)(k := take i (nw_out n k)),
         nw_back := (nw_back n)(k := take m (nw_back n k))\<rparr>)"

inductive_cases net_stepE: "net_step lib ops cap raw ev n n'"

definition net_init :: "'s issuer \<Rightarrow> 's network" where
  "net_init st0 = \<lparr>nw_switch = switch_init, nw_server = \<lparr>sv_pool = [], sv_issuer = st0\<rparr>,
     nw_dialled = 0, nw_broken = (\<lambda>_. False), nw_out = (\<lambda>_. []), nw_back = (\<lambda>_. [])\<rparr>"

inductive net_run ::
  "'m iso_lib \<Rightarrow> 's CardStore \<Rightarrow> nat \<Rightarrow> (nat \<Rightarrow> byte list) \<Rightarrow> 's issuer \<Rightarrow> net_event list \<Rightarrow> 's network \<Rightarrow> bool"
  for lib ops cap raw st0 where
  start: "net_run lib ops cap raw st0 [] (net_init st0)"
| step: "net_run lib ops cap raw st0 evs n \<Longrightarrow> net_step lib ops cap raw ev n n' \<Longrightarrow>
    net_run lib ops cap raw st0 (evs @ [ev]) n'"

section \<open>Each side's own run\<close>

fun switch_events :: "net_event list \<Rightarrow> mux_event list" where
  "switch_events [] = []"
| "switch_events (AtSwitch ev # evs) = ev # switch_events evs"
| "switch_events (_ # evs) = switch_events evs"

fun server_events :: "net_event list \<Rightarrow> server_event list" where
  "server_events [] = []"
| "server_events (AtServer ev # evs) = ev # server_events evs"
| "server_events (_ # evs) = server_events evs"

lemma events_append [simp]:
  "switch_events (evs @ evs') = switch_events evs @ switch_events evs'"
  "server_events (evs @ evs') = server_events evs @ server_events evs'"
  by (induction evs rule: switch_events.induct) simp_all

lemma switch_side: "net_run lib ops cap raw st0 evs n \<Longrightarrow> mux_run (switch_events evs) (nw_switch n)"
proof (induction rule: net_run.induct)
  case (step evs n ev n')
  from step.hyps(2) step.IH show ?case by cases (auto intro: mux_run.step)
qed (simp add: net_init_def mux_run.start)

lemma server_side:
  "net_run lib ops cap raw st0 evs n \<Longrightarrow> server_run lib ops cap st0 (server_events evs) (nw_server n)"
proof (induction rule: net_run.induct)
  case (step evs n ev n')
  from step.hyps(2) step.IH show ?case by cases (auto intro: server_run.step)
qed (simp add: net_init_def server_run.start)

text \<open>A live call knows its own correlation id, also after the counter has wrapped around.\<close>

lemma mux_live_corr:
  "mux_run evs s \<Longrightarrow> sw_counter s = of_nat (sw_calls s) \<and>
   (\<forall>h b c. sw_live s h = Some (b, c) \<longrightarrow> c = corr_of h)"
proof (induction rule: mux_run.induct)
  case (step evs s ev s')
  from step.hyps(2) step.IH show ?case
    by cases (auto simp: begin_call_def finish_def offer_def route_def corr_of_def Let_def add.commute
        split: if_splits option.split)
qed (simp add: switch_init_def)

lemma net_live_corr:
  "net_run lib ops cap raw st0 evs n \<Longrightarrow> sw_live (nw_switch n) h = Some (b, c) \<Longrightarrow> c = corr_of h"
  using mux_live_corr [OF switch_side] by blast

section \<open>From the switch to the server\<close>

definition request_body :: "(nat \<Rightarrow> byte list) \<Rightarrow> nat \<Rightarrow> byte list" where
  "request_body raw h = tpdu_header (corr_of h) @ raw h"

definition asks :: "(nat \<Rightarrow> byte list) \<Rightarrow> nat \<Rightarrow> job \<Rightarrow> bool" where
  "asks raw h j \<longleftrightarrow> j_tpdu j = tpdu_header (corr_of h) \<and> j_req j = hex_encode (raw h)"

lemma sound_request: "fits_frame (raw h) \<Longrightarrow> sound_body (request_body raw h)"
  by (simp add: request_body_def sound_body_def fits_frame_def)

text \<open>
  Everything is counted by the TPDU that carries the correlation id: the whole frames under way,
  the jobs that wait for their handling, and the jobs handled, against the writes of the switch.
\<close>

definition tagged :: "u32 \<Rightarrow> byte list list \<Rightarrow> nat" where
  "tagged c bs = length (filter (\<lambda>b. take 5 b = tpdu_header c) bs)"

fun waits_with :: "byte list \<Rightarrow> running \<Rightarrow> bool" where
  "waits_with t (Fresh j) = (j_tpdu j = t)"
| "waits_with t (Handled j _ _) = False"

fun handles_with :: "byte list \<Rightarrow> server_event \<Rightarrow> bool" where
  "handles_with t (Answered j _ _) = (j_tpdu j = t)"
| "handles_with t (HandleError j _) = (j_tpdu j = t)"
| "handles_with t _ = False"

fun sends_with :: "u32 \<Rightarrow> mux_event \<Rightarrow> bool" where
  "sends_with c (Sent h) = (corr_of h = c)"
| "sends_with c _ = False"

lemma tagged_simps [simp]:
  "tagged c [] = 0" "tagged c (bs @ bs') = tagged c bs + tagged c bs'"
  "tagged c (b # bs) = (if take 5 b = tpdu_header c then 1 else 0) + tagged c bs"
  by (simp_all add: tagged_def)

lemma tagged_take: "tagged c (take i bs) \<le> tagged c bs"
  by (induction bs arbitrary: i) (auto simp: take_Cons' split: if_splits)

lemma tpdu_header_inj [simp]: "tpdu_header c = tpdu_header d \<longleftrightarrow> c = d"
  using packet_corrID_header [of c "[]"] packet_corrID_header [of d "[]"] by metis

lemma request_body_tag [simp]: "take 5 (request_body raw h) = tpdu_header (corr_of h)"
  by (simp add: request_body_def)

lemma sum_upd:
  fixes f :: "'a \<Rightarrow> nat" and k N :: nat
  assumes "k < N"
  shows "(\<Sum>i<N. f ((q(k := x)) i)) + f (q k) = (\<Sum>i<N. f (q i)) + f x"
proof -
  have k: "k \<in> {..<N}" "finite {..<N}" using assms by simp_all
  have "(\<Sum>i \<in> {..<N} - {k}. f ((q(k := x)) i)) = (\<Sum>i \<in> {..<N} - {k}. f (q i))"
    by (rule sum.cong) auto
  with sum.remove [OF k(2,1), of "\<lambda>i. f ((q(k := x)) i)"] sum.remove [OF k(2,1), of "\<lambda>i. f (q i)"]
  show ?thesis by simp
qed

text \<open>\<open>out k\<close> are the bodies whose frames are whole and unread on connection \<open>k\<close>.\<close>

definition requests_ok ::
  "(nat \<Rightarrow> byte list) \<Rightarrow> net_event list \<Rightarrow> 's network \<Rightarrow> (nat \<Rightarrow> byte list list) \<Rightarrow> bool" where
  "requests_ok raw evs n out \<longleftrightarrow>
     (\<forall>k. carries (nw_broken n k) (out k) (nw_out n k)) \<and>
     (\<forall>k \<ge> nw_dialled n. out k = [] \<and> nw_out n k = []) \<and>
     (\<forall>k. \<forall>b \<in> set (out k). \<exists>h. Sent h \<in> set (switch_events evs) \<and> b = request_body raw h) \<and>
     (\<forall>j. Admitted j \<in> set (server_events evs) \<longrightarrow> (\<exists>h. Sent h \<in> set (switch_events evs) \<and> asks raw h j))"

definition accounted :: "net_event list \<Rightarrow> 's network \<Rightarrow> (nat \<Rightarrow> byte list list) \<Rightarrow> u32 \<Rightarrow> bool" where
  "accounted evs n out c \<longleftrightarrow>
     (\<Sum>k<nw_dialled n. tagged c (out k)) +
     length (filter (waits_with (tpdu_header c)) (sv_pool (nw_server n))) +
     length (filter (handles_with (tpdu_header c)) (server_events evs)) \<le>
     length (filter (sends_with c) (switch_events evs))"

lemma event_of [simp]:
  "x \<in> set (switch_events [ev]) \<longleftrightarrow> ev = AtSwitch x"
  "y \<in> set (server_events [ev]) \<longleftrightarrow> ev = AtServer y"
  by (cases ev; auto)+

lemma event_snoc:
  "x \<in> set (switch_events (evs @ [ev])) \<longleftrightarrow> x \<in> set (switch_events evs) \<or> ev = AtSwitch x"
  "y \<in> set (server_events (evs @ [ev])) \<longleftrightarrow> y \<in> set (server_events evs) \<or> ev = AtServer y"
  by (simp_all only: events_append set_append Un_iff event_of)

lemma requests_okD:
  assumes "requests_ok raw evs n out"
  shows "carries (nw_broken n k) (out k) (nw_out n k)"
    and "nw_dialled n \<le> k \<Longrightarrow> out k = [] \<and> nw_out n k = []"
    and "b \<in> set (out k) \<Longrightarrow> \<exists>h. Sent h \<in> set (switch_events evs) \<and> b = request_body raw h"
    and "Admitted j \<in> set (server_events evs) \<Longrightarrow> \<exists>h. Sent h \<in> set (switch_events evs) \<and> asks raw h j"
  using assms unfolding requests_ok_def by blast+

text \<open>What a step has to say: its effect on one connection, and where new bodies and jobs are from.\<close>

lemma requests_ok_step:
  assumes "requests_ok raw evs n out"
    and "\<And>k. carries (nw_broken n' k) (out' k) (nw_out n' k)"
    and "\<And>k. nw_dialled n' \<le> k \<Longrightarrow> out' k = [] \<and> nw_out n' k = []"
    and "\<And>k b. b \<in> set (out' k) \<Longrightarrow> b \<in> set (out k) \<or> (\<exists>h. ev = AtSwitch (Sent h) \<and> b = request_body raw h)"
    and "\<And>j. ev = AtServer (Admitted j) \<Longrightarrow> \<exists>k. \<exists>b \<in> set (out k). j_tpdu j = take 5 b \<and> j_req j = hex_encode (drop 5 b)"
  shows "requests_ok raw (evs @ [ev]) n' out'"
proof -
  note o = requests_okD [OF assms(1)]
  have "\<exists>h. Sent h \<in> set (switch_events (evs @ [ev])) \<and> b = request_body raw h" if "b \<in> set (out' k)" for k b
    using assms(4) [OF that] o(3) [of b k] unfolding event_snoc by blast
  moreover have "\<exists>h. Sent h \<in> set (switch_events (evs @ [ev])) \<and> asks raw h j"
    if "Admitted j \<in> set (server_events (evs @ [ev]))" for j
  proof (cases "Admitted j \<in> set (server_events evs)")
    case True
    with o(4) show ?thesis unfolding event_snoc by blast
  next
    case False
    with that have "ev = AtServer (Admitted j)" unfolding event_snoc by blast
    from assms(5) [OF this] obtain k b where b: "b \<in> set (out k)" "j_tpdu j = take 5 b"
      "j_req j = hex_encode (drop 5 b)" by blast
    from o(3) [OF b(1)] obtain h where "Sent h \<in> set (switch_events evs)" "b = request_body raw h" by blast
    with b(2,3) show ?thesis unfolding event_snoc by (auto simp: asks_def request_body_def)
  qed
  ultimately show ?thesis using assms(2,3) unfolding requests_ok_def by blast
qed

lemma taken_job:
  assumes "requests_ok raw evs n out"
    and "readTPDUFrame \<lparr>in_bytes = nw_out n k, in_end = EOF\<rparr> = (Inr (tpdu, hexReq), r)"
  obtains p ps where "out k = p # ps" "carries (nw_broken n k) ps (in_bytes r)" "k < nw_dialled n"
    "tpdu = take 5 p" "hexReq = hex_encode (drop 5 p)"
proof -
  obtain p where p: "readTPDUPacket \<lparr>in_bytes = nw_out n k, in_end = EOF\<rparr> = (Inr p, r)"
    "tpdu = take 5 p" "hexReq = hex_encode (drop 5 p)"
    using assms(2) by (auto simp: readTPDUFrame_packet)
  have "k < nw_dialled n"
    using p(1) requests_okD(2) [OF assms(1), of k] by (cases "k < nw_dialled n") auto
  with carries_read [OF requests_okD(1) [OF assms(1), of k] p(1)] p(2,3) that show thesis by blast
qed

text \<open>Inside the server a job is handled once: it leaves the waiting jobs when it is.\<close>

lemma server_accounts:
  assumes "server_step lib ops cap ev s s'"
  shows "inner ev \<or> (\<exists>j h p. ev = Replied j h p) \<Longrightarrow>
      length (filter (waits_with t) (sv_pool s')) + (if handles_with t ev then 1 else 0)
      \<le> length (filter (waits_with t) (sv_pool s))"
    and "takes j ev \<Longrightarrow> \<not> handles_with t ev \<and> length (filter (waits_with t) (sv_pool s'))
      \<le> length (filter (waits_with t) (sv_pool s)) + (if j_tpdu j = t then 1 else 0)"
  using assms by (cases rule: server_step.cases; auto)+

lemma accounted_server:
  assumes "accounted evs n out c" "server_step lib ops cap ev (nw_server n) sv"
    and "inner ev \<or> (\<exists>j h p. ev = Replied j h p)" "nw_server n' = sv" "nw_dialled n' = nw_dialled n"
  shows "accounted (evs @ [AtServer ev]) n' out c"
  using server_accounts(1) [OF assms(2,3), where t = "tpdu_header c"] assms(1,4,5)
  by (auto simp: accounted_def split: if_splits)

lemma requests_ok_server:
  assumes "requests_ok raw evs n out" "\<And>j. ev \<noteq> Admitted j"
    and "nw_dialled n' = nw_dialled n" "nw_out n' = nw_out n" "\<And>k. nw_broken n k \<Longrightarrow> nw_broken n' k"
  shows "requests_ok raw (evs @ [AtServer ev]) n' out"
proof (rule requests_ok_step [OF assms(1)])
  note o = requests_okD [OF assms(1)]
  show "carries (nw_broken n' k) (out k) (nw_out n' k)" for k
    using o(1) [of k] carries_breaks [OF o(1) [of k]] assms(4) assms(5) [of k]
    by (cases "nw_broken n k"; cases "nw_broken n' k") auto
  show "out k = [] \<and> nw_out n' k = []" if "nw_dialled n' \<le> k" for k
    using o(2) [of k] that assms(3,4) by simp
qed (use assms(2) in auto)

lemma requests_step:
  assumes "net_run lib ops cap raw st0 evs n" "\<And>h. fits_frame (raw h)" "requests_ok raw evs n out"
    and "net_step lib ops cap raw ev n n'"
  shows "\<exists>out'. requests_ok raw (evs @ [ev]) n' out' \<and>
    (\<forall>c. accounted evs n out c \<longrightarrow> accounted (evs @ [ev]) n' out' c)"
proof -
  note o = requests_okD [OF assms(3)]
  have pkt: "request_packet (raw h) c = frame (request_body raw h)"
    if "sw_live (nw_switch n) h = Some (b, c)" for h b c
    using net_live_corr [OF assms(1) that] by (simp add: request_packet_frame request_body_def)
  note snd = sound_request [OF assms(2)]
  from assms(4) show ?thesis
  proof cases
    case dial
    have "requests_ok raw (evs @ [ev]) n' out"
      by (rule requests_ok_step [OF assms(3)]) (use o dial in auto)
    with dial o(2) show ?thesis by (intro exI [of _ out]) (auto simp: accounted_def)
  next
    case (at_switch e sw)
    have "requests_ok raw (evs @ [ev]) n' out"
      by (rule requests_ok_step [OF assms(3)]) (use o at_switch in auto)
    with at_switch show ?thesis by (intro exI [of _ out]) (auto simp: accounted_def)
  next
    case (send h sw b c k)
    let ?out = "out(k := out k @ [request_body raw h])"
    have k: "k < nw_dialled n" "\<not> nw_broken n k" using send(5) by (simp_all add: usable_def)
    have "carries False (out k) (nw_out n k)" using o(1) [of k] k(2) by simp
    from carries_write [OF this snd] have
      "carries (nw_broken n k) (out k @ [request_body raw h]) (nw_out n k @ frame (request_body raw h))" .
    then have "requests_ok raw (evs @ [ev]) n' ?out"
      by (intro requests_ok_step [OF assms(3)])
        (use o send k pkt [OF send(4)] in \<open>auto split: if_splits\<close>)
    moreover have "accounted (evs @ [ev]) n' ?out d" if "accounted evs n out d" for d
      using sum_upd [OF k(1), of "tagged d" out "out k @ [request_body raw h]"] that send(1,2)
      by (auto simp: accounted_def split: if_splits)
    ultimately show ?thesis by blast
  next
    case (torn_request h c k m)
    have k: "k < nw_dialled n" "\<not> nw_broken n k" using torn_request(4) by (simp_all add: usable_def)
    have "carries False (out k) (nw_out n k)" using o(1) [of k] k(2) by simp
    from carries_torn [OF this snd] torn_request(5) pkt [OF torn_request(3)]
    have "carries True (out k) (nw_out n k @ take m (frame (request_body raw h)))" by simp
    then have "requests_ok raw (evs @ [ev]) n' out"
      by (intro requests_ok_step [OF assms(3)]) (use o torn_request k pkt [OF torn_request(3)] in auto)
    with torn_request show ?thesis by (intro exI [of _ out]) (auto simp: accounted_def)
  next
    case (arrive k tpdu hexReq r e sv)
    from taken_job [OF assms(3) arrive(3)] obtain p ps where
      p: "out k = p # ps" "carries (nw_broken n k) ps (in_bytes r)" "k < nw_dialled n"
        "tpdu = take 5 p" "hexReq = hex_encode (drop 5 p)" .
    have "requests_ok raw (evs @ [ev]) n' (out(k := ps))"
    proof (rule requests_ok_step [OF assms(3)])
      show "\<exists>k. \<exists>b \<in> set (out k). j_tpdu j = take 5 b \<and> j_req j = hex_encode (drop 5 b)"
        if "ev = AtServer (Admitted j)" for j
        using that arrive(1,4) p by (intro exI [of _ k]) auto
      show "b \<in> set (out i) \<or> (\<exists>h. ev = AtSwitch (Sent h) \<and> b = request_body raw h)"
        if "b \<in> set ((out(k := ps)) i)" for i b using that p(1) by (auto split: if_splits)
    qed (use o p arrive(2) in auto)
    moreover have "accounted (evs @ [ev]) n' (out(k := ps)) c" if "accounted evs n out c" for c
      using sum_upd [OF p(3), of "tagged c" out ps] that arrive(1,2) p(1,4)
        server_accounts(2) [OF arrive(5,4), where t = "tpdu_header c"]
      by (auto simp: accounted_def split: if_splits)
    ultimately show ?thesis by blast
  next
    case (at_server e sv)
    have "requests_ok raw (evs @ [ev]) n' out" unfolding at_server(1)
      by (rule requests_ok_server [OF assms(3)]) (use at_server in auto)
    with accounted_server [OF _ at_server(3), of evs out _ n'] at_server show ?thesis by auto
  next
    case (reply j hx pk sv)
    have "requests_ok raw (evs @ [ev]) n' out" unfolding reply(1)
      by (rule requests_ok_server [OF assms(3)]) (use reply in auto)
    with accounted_server [OF _ reply(3), of evs out _ n'] reply show ?thesis by auto
  next
    case (torn_reply j e sv hx resp pk m)
    have "requests_ok raw (evs @ [ev]) n' out" unfolding torn_reply(1)
      by (rule requests_ok_server [OF assms(3)]) (use torn_reply in auto)
    with accounted_server [OF _ torn_reply(3), of evs out _ n'] torn_reply show ?thesis by auto
  next
    case (returned k p r sw)
    have "requests_ok raw (evs @ [ev]) n' out"
      by (rule requests_ok_step [OF assms(3)]) (use o returned in auto)
    with returned show ?thesis by (intro exI [of _ out]) (auto simp: accounted_def)
  next
    case (broke k i m)
    from carries_cut [OF o(1) [of k]] obtain l where l: "carries True (take l (out k)) (take m (nw_out n k))"
      by blast
    have "requests_ok raw (evs @ [ev]) n' (out(k := take l (out k)))"
      by (rule requests_ok_step [OF assms(3)]) (use o broke l in \<open>auto split: if_splits dest: in_set_takeD\<close>)
    moreover have "accounted (evs @ [ev]) n' (out(k := take l (out k))) c" if "accounted evs n out c" for c
      using sum_upd [OF broke(3), of "tagged c" out "take l (out k)"] tagged_take [of c l "out k"] that broke(1,2)
      by (auto simp: accounted_def)
    ultimately show ?thesis by blast
  qed
qed

lemma net_requests:
  assumes "net_run lib ops cap raw st0 evs n" "\<And>h. fits_frame (raw h)"
  shows "\<exists>out. requests_ok raw evs n out \<and> (\<forall>c. accounted evs n out c)"
  using assms(1)
proof (induction rule: net_run.induct)
  case start
  show ?case
    by (intro exI [of _ "\<lambda>_. []"]) (simp add: requests_ok_def accounted_def net_init_def)
next
  case (step evs n ev n')
  then obtain out where "requests_ok raw evs n out" "\<forall>c. accounted evs n out c" by blast
  with requests_step [OF step.hyps(1) assms(2) _ step.hyps(2)] show ?case by blast
qed

lemma admitted_asks:
  assumes "net_run lib ops cap raw st0 evs n" "\<And>h. fits_frame (raw h)"
    and "Admitted j \<in> set (server_events evs)"
  shows "\<exists>h. Sent h \<in> set (switch_events evs) \<and> asks raw h j"
  using net_requests [OF assms(1,2)] requests_okD(4) assms(3) by blast

section \<open>From the server back to the switch\<close>

lemma answered_by_engine:
  "server_run lib ops cap st0 evs s \<Longrightarrow> Answered j h m \<in> set evs \<Longrightarrow>
   \<exists>env st st'. HandleHex lib (Some ops) env (j_req j) st = (Inr (h, m), st')"
proof (induction rule: server_run.induct)
  case (step evs s ev s')
  from step.hyps(2) step.IH step.prems show ?case by cases auto
qed simp

lemma answer_fits:
  assumes "lib_fits lib" "HandleHex lib engine env hexReq st = (Inr (hexResp, m), st')"
  shows "\<exists>bs. hexResp = hex_encode bs \<and> fits_frame bs"
proof -
  obtain bs where bs: "hexResp = hex_encode bs" using HandleHex_hex [OF assms(2)] by blast
  have "PackMessageToHex lib (Some m) = Inr hexResp"
    using assms(2) by (auto simp: HandleHex_def Let_def split: sum.splits prod.splits)
  with assms(1) bs show ?thesis unfolding lib_fits_def by (metis hex_decode_encode)
qed

text \<open>The packet of a handled job is the frame of its answer behind its request's TPDU.\<close>

lemma reply_frame:
  assumes "net_run lib ops cap raw st0 evs n" "\<And>h. fits_frame (raw h)" "lib_fits lib"
    and "Handled j hx resp \<in> set (sv_pool (nw_server n))" "writeTPDUFrame hx (j_tpdu j) = Inr pkt"
  shows "\<exists>b. pkt = frame b \<and> sound_body b"
proof -
  note srv = server_side [OF assms(1)]
  obtain m where ans: "Admitted j \<in> set (server_events evs)" "Answered j hx m \<in> set (server_events evs)"
    using server_run_replies [OF srv] assms(4) unfolding replies_ok_def answered_def by blast
  obtain k where k: "asks raw k j" using admitted_asks [OF assms(1,2) ans(1)] by blast
  obtain bs where "hx = hex_encode bs" "fits_frame bs"
    using answered_by_engine [OF srv ans(2)] answer_fits [OF assms(3)] by blast
  with assms(5) k show ?thesis
    by (intro exI [of _ "tpdu_header (corr_of k) @ bs"])
      (simp add: asks_def writeTPDUFrame_frame sound_body_def fits_frame_def)
qed

definition replies_carried ::
  "net_event list \<Rightarrow> 's network \<Rightarrow> (nat \<Rightarrow> byte list list) \<Rightarrow> bool" where
  "replies_carried evs n back \<longleftrightarrow>
     (\<forall>k. carries (nw_broken n k) (back k) (nw_back n k)) \<and>
     (\<forall>k. \<forall>b \<in> set (back k). \<exists>j hx. Replied j hx (frame b) \<in> set (server_events evs)) \<and>
     (\<forall>p. Packet p \<in> set (switch_events evs) \<longrightarrow>
        (\<exists>j hx. Replied j hx (frame p) \<in> set (server_events evs)))"

lemma replies_carriedD:
  assumes "replies_carried evs n back"
  shows "carries (nw_broken n k) (back k) (nw_back n k)"
    and "b \<in> set (back k) \<Longrightarrow> \<exists>j hx. Replied j hx (frame b) \<in> set (server_events evs)"
    and "Packet p \<in> set (switch_events evs) \<Longrightarrow> \<exists>j hx. Replied j hx (frame p) \<in> set (server_events evs)"
  using assms unfolding replies_carried_def by blast+

lemma replies_carried_step:
  assumes "replies_carried evs n back"
    and "\<And>k. carries (nw_broken n' k) (back' k) (nw_back n' k)"
    and "\<And>k b. b \<in> set (back' k) \<Longrightarrow> b \<in> set (back k) \<or> (\<exists>j hx. ev = AtServer (Replied j hx (frame b)))"
    and "\<And>p. ev = AtSwitch (Packet p) \<Longrightarrow> \<exists>k. p \<in> set (back k)"
  shows "replies_carried (evs @ [ev]) n' back'"
proof -
  note b = replies_carriedD [OF assms(1)]
  have "\<exists>j hx. Replied j hx (frame b) \<in> set (server_events (evs @ [ev]))" if "b \<in> set (back' k)" for k b
    using assms(3) [OF that] b(2) [of b k] unfolding event_snoc by blast
  moreover have "\<exists>j hx. Replied j hx (frame p) \<in> set (server_events (evs @ [ev]))"
    if "Packet p \<in> set (switch_events (evs @ [ev]))" for p
    using that assms(4) [of p] b(2,3) unfolding event_snoc by blast
  ultimately show ?thesis using assms(2) unfolding replies_carried_def by blast
qed

lemma replies_step:
  assumes "net_run lib ops cap raw st0 evs n" "\<And>h. fits_frame (raw h)" "lib_fits lib"
    and "replies_carried evs n back" "net_step lib ops cap raw ev n n'"
  shows "\<exists>back'. replies_carried (evs @ [ev]) n' back'"
proof -
  note b = replies_carriedD [OF assms(4)]
  have quiet: ?thesis
    if "nw_back n' = nw_back n" "\<And>k. nw_broken n k \<Longrightarrow> nw_broken n' k" "\<And>p. ev \<noteq> AtSwitch (Packet p)"
  proof -
    have "carries (nw_broken n' k) (back k) (nw_back n' k)" for k
      using b(1) [of k] carries_breaks [OF b(1) [of k]] that(1) that(2) [of k]
      by (cases "nw_broken n k"; cases "nw_broken n' k") auto
    then have "replies_carried (evs @ [ev]) n' back"
      by (intro replies_carried_step [OF assms(4)]) (use that(3) in auto)
    then show ?thesis by blast
  qed
  from assms(5) show ?thesis
  proof cases
    case (at_switch e sw)
    then have "e \<noteq> Packet p" for p by auto
    with at_switch show ?thesis by (intro quiet) auto
  next
    case (reply j hx pkt sv)
    from reply(3) obtain resp where h: "Handled j hx resp \<in> set (sv_pool (nw_server n))"
      "writeTPDUFrame hx (j_tpdu j) = Inr pkt"
      by (cases rule: server_step.cases) (auto dest: write_answer_frame)
    from reply_frame [OF assms(1-3) h] obtain p where p: "pkt = frame p" "sound_body p" by blast
    let ?k = "j_conn j"
    have "carries False (back ?k) (nw_back n ?k)" using b(1) [of ?k] reply(4) by (simp add: usable_def)
    from carries_write [OF this p(2), of "nw_broken n ?k"] p(1) reply(2)
    have "replies_carried (evs @ [ev]) n' (back(?k := back ?k @ [p]))"
      by (intro replies_carried_step [OF assms(4)])
        (use b(1) p(1) reply(1,2) in \<open>auto split: if_splits\<close>)
    then show ?thesis by blast
  next
    case (torn_reply j e sv hx resp pkt m)
    from reply_frame [OF assms(1-3) torn_reply(5,6)] obtain p where p: "pkt = frame p" "sound_body p" by blast
    let ?k = "j_conn j"
    have "carries False (back ?k) (nw_back n ?k)" using b(1) [of ?k] torn_reply(4) by (simp add: usable_def)
    from carries_torn [OF this p(2), of m] p(1) torn_reply(2,7)
    have "replies_carried (evs @ [ev]) n' back"
      by (intro replies_carried_step [OF assms(4)]) (use b(1) torn_reply(1,2) in auto)
    then show ?thesis by blast
  next
    case (returned k p r sw)
    from carries_read [OF b(1) returned(3)] obtain ps where
      ps: "back k = p # ps" "carries (nw_broken n k) ps (in_bytes r)" by blast
    have "replies_carried (evs @ [ev]) n' (back(k := ps))"
    proof (rule replies_carried_step [OF assms(4)])
      show "\<exists>i. q \<in> set (back i)" if "ev = AtSwitch (Packet q)" for q
        using that returned(1) ps(1) by (intro exI [of _ k]) simp
    qed (use b(1) ps returned(1,2) in \<open>auto split: if_splits\<close>)
    then show ?thesis by blast
  next
    case (broke k i m)
    from carries_cut [OF b(1) [of k], of i] carries_cut [OF b(1) [of k], of m]
    obtain l l' where "carries True (take l (back k)) (take i (nw_back n k))"
      "carries True (take l' (back k)) (take m (nw_back n k))" by blast
    then have "\<exists>l. replies_carried (evs @ [ev]) n' (back(k := take l (back k)))"
      by (intro exI [of _ l] replies_carried_step [OF assms(4)])
        (use b(1) broke(1,2) in \<open>auto split: if_splits dest: in_set_takeD\<close>)
    then show ?thesis by blast
  qed (use quiet in auto)
qed

lemma net_replies:
  assumes "net_run lib ops cap raw st0 evs n" "\<And>h. fits_frame (raw h)" "lib_fits lib"
  shows "\<exists>back. replies_carried evs n back"
  using assms(1)
proof (induction rule: net_run.induct)
  case start
  show ?case by (intro exI [of _ "\<lambda>_. []"]) (simp add: replies_carried_def net_init_def)
next
  case (step evs n ev n')
  then show ?case using replies_step [OF step.hyps(1) assms(2,3) _ step.hyps(2)] by blast
qed

section \<open>A call gets the answer to its own request\<close>

lemma sent_was_called:
  "mux_run evs s \<Longrightarrow> sw_calls s < 2 ^ 32 \<Longrightarrow> Sent h \<in> set evs \<Longrightarrow> h < sw_calls s"
proof (induction rule: mux_run.induct)
  case (step evs s ev s')
  have le: "sw_calls s \<le> sw_calls s'" by (rule mux_step_calls [OF step.hyps(2)])
  with step.prems(1) have lt: "sw_calls s < 2 ^ 32" by simp
  show ?case
  proof (cases "Sent h \<in> set evs")
    case True
    with step.IH lt le show ?thesis by simp
  next
    case False
    with step.prems(2) have "ev = Sent h" by simp
    with step.hyps(2) obtain c where "sw_live s h = Some (False, c)" by (auto simp: mux_sent)
    with mux_invD(2) [OF mux_run_inv [OF step.hyps(1) lt]] le show ?thesis by fastforce
  qed
qed simp

lemma frame_inj: "frame b = frame b' \<Longrightarrow> b = b'"
  using drop_append_exact [of "put_u16 _" 2] by (metis frame_def length_put(1))

lemma own_answer:
  assumes "net_run lib ops cap raw st0 evs n" "lib_fits lib" "\<And>h. fits_frame (raw h)"
    and "sw_calls (nw_switch n) < 2 ^ 32" "answer_to (switch_events evs) h r" "h < sw_calls (nw_switch n)"
  shows "\<exists>j m env st st'. Answered j (hex_encode r) m \<in> set (server_events evs) \<and> asks raw h j \<and>
    HandleHex lib (Some ops) env (hex_encode (raw h)) st = (Inr (hex_encode r, m), st')"
proof -
  note mux = switch_side [OF assms(1)] and srv = server_side [OF assms(1)]
  obtain p where p: "Packet p \<in> set (switch_events evs)" "packet_corrID p = corr_of h" "r = drop 5 p"
    using assms(5) unfolding answer_to_def by (metis in_set_conv_decomp append_Cons append.assoc)
  obtain j hx where rep: "Replied j hx (frame p) \<in> set (server_events evs)"
    using net_replies [OF assms(1,3,2)] replies_carriedD(3) p(1) by blast
  obtain m where ans: "Admitted j \<in> set (server_events evs)" "Answered j hx m \<in> set (server_events evs)"
    "writeTPDUFrame hx (j_tpdu j) = Inr (frame p)"
    using server_run_replies [OF srv] rep unfolding replies_ok_def answered_def by blast
  obtain k where k: "Sent k \<in> set (switch_events evs)" "asks raw k j"
    using admitted_asks [OF assms(1,3) ans(1)] by blast
  obtain env st st' where hh: "HandleHex lib (Some ops) env (j_req j) st = (Inr (hx, m), st')"
    using answered_by_engine [OF srv ans(2)] by blast
  obtain bs where bs: "hx = hex_encode bs" "fits_frame bs" using answer_fits [OF assms(2) hh] by blast
  have pk: "p = tpdu_header (corr_of k) @ bs"
    using ans(3) k(2) bs(1) by (simp add: asks_def writeTPDUFrame_frame) (metis frame_inj)
  have "k < sw_calls (nw_switch n)" by (rule sent_was_called [OF mux assms(4) k(1)])
  then have "k = h" using pk p(2) assms(4,6) corr_of_inj [of k h] by simp
  with pk p(3) bs(1) k(2) have "hx = hex_encode r" "j_req j = hex_encode (raw h)" "asks raw h j"
    by (simp_all add: asks_def)
  with hh ans(2) show ?thesis by metis
qed

section \<open>A request is handled at most once\<close>

lemma sent_once:
  "mux_run evs s \<Longrightarrow> sw_calls s < 2 ^ 32 \<Longrightarrow>
   length (filter (\<lambda>ev. ev = Sent h) evs) +
     (if (\<exists>c. sw_live s h = Some (False, c)) \<or> sw_calls s \<le> h then 1 else 0) \<le> (1::nat)"
proof (induction rule: mux_run.induct)
  case (step evs s ev s')
  have lt: "sw_calls s < 2 ^ 32" using mux_step_calls [OF step.hyps(2)] step.prems by simp
  note live = mux_invD(2) [OF mux_run_inv [OF step.hyps(1) lt]]
  note IH = step.IH [OF lt]
  from step.hyps(2) show ?case
  proof cases
    case call
    with IH live show ?thesis by (auto simp: begin_call_def Let_def split: if_splits)
  next
    case (sent k c)
    with IH live [of k False c] show ?thesis by (auto split: if_splits)
  next
    case (packet p)
    then have "sw_live s' = sw_live s" "sw_calls s' = sw_calls s"
      by (simp_all add: route_def split: option.split)
    with IH packet(1) show ?thesis by simp
  next
    case (offered xs k msg ys)
    then have "sw_live s' = sw_live s" "sw_calls s' = sw_calls s" by (simp_all add: offer_def)
    with IH offered(1) show ?thesis by simp
  qed (use IH live in \<open>auto simp: finish_def split: if_splits\<close>)
qed simp

lemma sends_with_once:
  assumes "mux_run evs s" "sw_calls s < 2 ^ 32" "h < 2 ^ 32"
  shows "length (filter (sends_with (corr_of h)) evs) \<le> 1"
proof -
  have "sends_with (corr_of h) ev \<longleftrightarrow> ev = Sent h" if "ev \<in> set evs" for ev
  proof (cases "\<exists>k. ev = Sent k")
    case True
    then obtain k where k: "ev = Sent k" by blast
    then have "k < 2 ^ 32" using sent_was_called [OF assms(1,2)] that assms(2) by fastforce
    with k corr_of_inj [OF _ _ assms(3), of k] show ?thesis by auto
  next
    case False
    then show ?thesis by (cases ev) auto
  qed
  then have "filter (sends_with (corr_of h)) evs = filter (\<lambda>ev. ev = Sent h) evs"
    by (rule filter_cong [OF refl])
  with sent_once [OF assms(1,2), of h] show ?thesis by simp
qed

lemma handled_once:
  assumes "net_run lib ops cap raw st0 evs n" "\<And>h. fits_frame (raw h)"
    and "sw_calls (nw_switch n) < 2 ^ 32" "h < 2 ^ 32"
  shows "length (filter (handles_with (tpdu_header (corr_of h))) (server_events evs)) \<le> 1"
proof -
  obtain out where "accounted evs n out (corr_of h)" using net_requests [OF assms(1,2)] by blast
  with sends_with_once [OF switch_side [OF assms(1)] assms(3,4)] show ?thesis
    by (simp add: accounted_def)
qed

end
