(* ===== verification/Issuer_Ledger.thy ===== *)
theory Issuer_Ledger
  imports Issuer_Server
begin

text \<open>
  The issuer's server as the engine run on one request after the other: the requests its jobs
  handled, in the order they were handled, with the codes of those that were answered. From this
  the ledger of the card table after any run of the server follows from the events of the run.
\<close>

section \<open>The handled requests\<close>

text \<open>
  A handled job whose hex is a message stands for one request; its code is known when the answer
  could be packed. A job whose hex is no message never reached the engine.
\<close>

fun handled :: "'m iso_lib \<Rightarrow> server_event list \<Rightarrow> (ISOMessage \<times> string option) list" where
  "handled lib [] = []"
| "handled lib (Answered j h m # evs) =
    (case ParseHexToMessage lib (j_req j) of
       Inl _ \<Rightarrow> handled lib evs
     | Inr req \<Rightarrow> (req, Some (RespCode m)) # handled lib evs)"
| "handled lib (HandleError j e # evs) =
    (case ParseHexToMessage lib (j_req j) of
       Inl _ \<Rightarrow> handled lib evs
     | Inr req \<Rightarrow> (req, None) # handled lib evs)"
| "handled lib (_ # evs) = handled lib evs"

lemma handled_append [simp]: "handled lib (evs @ evs') = handled lib evs @ handled lib evs'"
  by (induction lib evs rule: handled.induct) (simp_all split: sum.split)

text \<open>An answered request was answered with the code the engine gave.\<close>

definition code_agrees :: "ISOMessage \<times> string option \<Rightarrow> string \<Rightarrow> bool" where
  "code_agrees h code \<longleftrightarrow> snd h = None \<or> snd h = Some code"

lemma run_requests_snoc:
  "run_requests ops xs s = (codes, u) \<Longrightarrow> Authorize ops env (Some req) u = (x, v) \<Longrightarrow>
   run_requests ops (xs @ [(env, req)]) s = (codes @ [code_of x], v)"
  by (induction ops xs s arbitrary: codes rule: run_requests.induct) (auto simp: Let_def split: prod.splits)

lemma HandleHex_authorizes:
  assumes "HandleHex lib (Some ops) env hexReq st = (y, st')" "ParseHexToMessage lib hexReq = Inr req"
  shows "\<exists>x. Authorize ops env (Some req) (is_store st) = (x, is_store st') \<and>
    (\<forall>h m. y = Inr (h, m) \<longrightarrow> code_of x = RespCode m)"
proof -
  obtain resp dec where a: "fst (Authorize ops env (Some req) (is_store st)) = Inr (resp, dec)"
    "HandleHex lib (Some ops) env hexReq st =
       (let st' = st\<lparr>is_store := snd (Authorize ops env (Some req) (is_store st))\<rparr> in
        case PackMessageToHex lib (Some resp) of
          Inl e \<Rightarrow> (Inl (Wrapf ''pack response'' e), st')
        | Inr hexResp \<Rightarrow> (Inr (hexResp, resp),
            st'\<lparr>is_audit := audit_offer (issuer_tx req resp (Some dec)) (is_audit st)\<rparr>))"
    using HandleHex_parsed [OF assms(2), where ops = ops and env = env and st = st] by blast
  have "is_store st' = snd (Authorize ops env (Some req) (is_store st))"
    "\<forall>h m. y = Inr (h, m) \<longrightarrow> m = resp"
    using assms(1) a(2) by (auto simp: Let_def split: sum.splits)
  with a(1) show ?thesis
    by (cases "Authorize ops env (Some req) (is_store st)") auto
qed

section \<open>The server is the engine in turn\<close>

lemma server_in_turn:
  assumes "server_run lib ops cap st0 evs s"
  shows "\<exists>envs codes. length envs = length (handled lib evs) \<and>
    run_requests ops (zip envs (map fst (handled lib evs))) (is_store st0) =
      (codes, is_store (sv_issuer s)) \<and> list_all2 code_agrees (handled lib evs) codes"
  using assms
proof (induction rule: server_run.induct)
  case (step evs s ev s')
  then obtain envs codes where IH: "length envs = length (handled lib evs)"
    "run_requests ops (zip envs (map fst (handled lib evs))) (is_store st0) =
      (codes, is_store (sv_issuer s))" "list_all2 code_agrees (handled lib evs) codes" by blast
  have skip: "?case" if "handled lib [ev] = []" "is_store (sv_issuer s') = is_store (sv_issuer s)"
    using that IH by auto
  have one: "?case" if "handled lib [ev] = [(req, rc)]" "code_agrees (req, rc) (code_of x)"
    "Authorize ops env (Some req) (is_store (sv_issuer s)) = (x, is_store (sv_issuer s'))" for env req rc x
    using run_requests_snoc [OF IH(2) that(3)] IH(1,3) that(1,2)
    by (intro exI [of _ "envs @ [env]"] exI [of _ "codes @ [code_of x]"])
      (simp add: list_all2_appendI)
  from step.hyps(2) show ?case
  proof cases
    case (handle_err xs j ys env e st)
    show ?thesis
    proof (cases "ParseHexToMessage lib (j_req j)")
      case (Inl e')
      with handle_err HandleHex_unparsed [OF Inl, of "Some ops" env "sv_issuer s"] show ?thesis
        by (intro skip) simp_all
    next
      case (Inr req)
      from HandleHex_authorizes [OF handle_err(4) Inr] obtain x where
        "Authorize ops env (Some req) (is_store (sv_issuer s)) = (x, is_store st)" by blast
      with handle_err Inr show ?thesis by (intro one [of req None]) (simp_all add: code_agrees_def)
    qed
  next
    case (handle xs j ys env h m st)
    then obtain req where p: "ParseHexToMessage lib (j_req j) = Inr req"
      by (cases "ParseHexToMessage lib (j_req j)") (simp_all add: HandleHex_unparsed)
    from HandleHex_authorizes [OF handle(4) p] obtain x where
      "Authorize ops env (Some req) (is_store (sv_issuer s)) = (x, is_store st)" "code_of x = RespCode m"
      by blast
    with handle p show ?thesis
      by (intro one [of req "Some (RespCode m)"]) (simp_all add: code_agrees_def)
  qed (use IH in auto)
qed simp

section \<open>The ledger after a run\<close>

context card_store
begin

lemma server_ledger:
  assumes "server_run lib ops cap st0 evs s" "inv (is_store st0)"
  shows "inv (is_store (sv_issuer s)) \<and>
    (\<exists>codes lost. list_all2 code_agrees (handled lib evs) codes \<and> lost_only_on_malfunction codes lost \<and>
       (\<forall>p. bal (is_store (sv_issuer s)) p = map_option
          (\<lambda>b. b + net_movement p (zip (map fst (handled lib evs)) (zip codes lost))) (bal (is_store st0) p)))"
proof -
  obtain envs codes where r: "length envs = length (handled lib evs)"
    "run_requests ops (zip envs (map fst (handled lib evs))) (is_store st0) =
      (codes, is_store (sv_issuer s))" "list_all2 code_agrees (handled lib evs) codes"
    using server_in_turn [OF assms(1)] by blast
  have "map snd (zip envs (map fst (handled lib evs))) = map fst (handled lib evs)" using r(1) by simp
  with run_conserves [OF assms(2) r(2)] r(3) show ?thesis by auto
qed

end

end
