(* ===== verification/Network_Ledger.thy ===== *)
theory Network_Ledger
  imports Network Issuer_Ledger
begin

text \<open>
  The money behind a run of the whole network: the ledger of the issuer's server in terms of the
  acquirer's calls. Each job the server handled is for one call, no two for the same one, and a
  call that was answered was counted by the code of its answer.
\<close>

section \<open>The jobs that reached the engine\<close>

fun decided :: "'m iso_lib \<Rightarrow> server_event list \<Rightarrow> (job \<times> string option) list" where
  "decided lib [] = []"
| "decided lib (Answered j h m # evs) =
    (case ParseHexToMessage lib (j_req j) of
       Inl _ \<Rightarrow> decided lib evs
     | Inr req \<Rightarrow> (j, Some (RespCode m)) # decided lib evs)"
| "decided lib (HandleError j e # evs) =
    (case ParseHexToMessage lib (j_req j) of
       Inl _ \<Rightarrow> decided lib evs
     | Inr req \<Rightarrow> (j, None) # decided lib evs)"
| "decided lib (_ # evs) = decided lib evs"

definition message_of :: "'m iso_lib \<Rightarrow> string \<Rightarrow> ISOMessage" where
  "message_of lib h = (case ParseHexToMessage lib h of Inl _ \<Rightarrow> empty_message | Inr m \<Rightarrow> m)"

lemma handled_decided: "handled lib evs = map (\<lambda>(j, rc). (message_of lib (j_req j), rc)) (decided lib evs)"
  by (induction lib evs rule: decided.induct) (simp_all add: message_of_def split: sum.split)

lemma decided_count:
  "length (filter (\<lambda>(j, rc). j_tpdu j = t) (decided lib evs)) \<le> length (filter (handles_with t) evs)"
  by (induction lib evs rule: decided.induct) (auto split: sum.split)

lemma decided_member:
  "(j, rc) \<in> set (decided lib evs) \<Longrightarrow> (\<exists>h m. Answered j h m \<in> set evs) \<or> (\<exists>e. HandleError j e \<in> set evs)"
  by (induction lib evs rule: decided.induct) (auto split: sum.splits)

lemma decided_answered:
  "Answered j h m \<in> set evs \<Longrightarrow> ParseHexToMessage lib (j_req j) = Inr req \<Longrightarrow>
   (j, Some (RespCode m)) \<in> set (decided lib evs)"
  by (induction lib evs rule: decided.induct) (auto split: sum.splits)

lemma handled_was_admitted:
  "server_run lib ops cap st0 evs s \<Longrightarrow> (\<exists>h m. Answered j h m \<in> set evs) \<or> (\<exists>e. HandleError j e \<in> set evs) \<Longrightarrow>
   Admitted j \<in> set evs"
proof (induction rule: server_run.induct)
  case (step evs s ev s')
  show ?case
  proof (cases "(\<exists>h m. Answered j h m \<in> set evs) \<or> (\<exists>e. HandleError j e \<in> set evs)")
    case True
    with step.IH show ?thesis by simp
  next
    case False
    with step.prems have "(\<exists>h m. ev = Answered j h m) \<or> (\<exists>e. ev = HandleError j e)" by auto
    with step.hyps(2) have "Fresh j \<in> set (sv_pool s)" by (auto elim: server_step.cases)
    with server_run_replies [OF step.hyps(1)] show ?thesis by (simp add: replies_ok_def)
  qed
qed simp

section \<open>One call for every job\<close>

lemma distinct_map_count:
  "(\<And>y. length (filter (\<lambda>x. f x = y) xs) \<le> 1) \<Longrightarrow> distinct (map f xs)"
proof (induction xs)
  case (Cons x xs)
  have "length (filter (\<lambda>z. f z = y) xs) \<le> 1" for y
    using Cons.prems [of y] by (simp split: if_splits)
  moreover have "f x \<notin> f ` set xs"
    using Cons.prems [of "f x"] by (auto simp: filter_empty_conv)
  ultimately show ?case using Cons.IH by simp
qed simp

lemma decided_calls:
  assumes "net_run lib ops cap raw st0 evs n" "\<And>h. fits_frame (raw h)"
    and "sw_calls (nw_switch n) < 2 ^ 32"
  shows "\<exists>hs. distinct hs \<and> (\<forall>h \<in> set hs. Sent h \<in> set (switch_events evs)) \<and>
    list_all2 (\<lambda>h (j, rc). asks raw h j) hs (decided lib (server_events evs))"
proof -
  note srv = server_side [OF assms(1)] and mux = switch_side [OF assms(1)]
  let ?js = "decided lib (server_events evs)"
  have "\<exists>h. Sent h \<in> set (switch_events evs) \<and> asks raw h (fst x)" if "x \<in> set ?js" for x
  proof -
    have "(fst x, snd x) \<in> set ?js" using that by simp
    from admitted_asks [OF assms(1,2) handled_was_admitted [OF srv decided_member [OF this]]] show ?thesis .
  qed
  then obtain f where f: "\<And>x. x \<in> set ?js \<Longrightarrow> Sent (f x) \<in> set (switch_events evs) \<and> asks raw (f x) (fst x)"
    by metis
  have "distinct (map f ?js)"
  proof (rule distinct_map_count)
    fix h
    show "length (filter (\<lambda>x. f x = h) ?js) \<le> 1"
    proof (cases "h \<in> f ` set ?js")
      case False
      then have "filter (\<lambda>x. f x = h) ?js = []" by (auto simp: filter_empty_conv)
      then show ?thesis by simp
    next
      case True
      then have "Sent h \<in> set (switch_events evs)" using f by auto
      then have "h < 2 ^ 32" using sent_was_called [OF mux assms(3)] assms(3) by fastforce
      from handled_once [OF assms(1,2,3) this] decided_count [of "tpdu_header (corr_of h)" lib "server_events evs"]
      have le: "length (filter (\<lambda>(j, rc). j_tpdu j = tpdu_header (corr_of h)) ?js) \<le> 1" by linarith
      have "filter (\<lambda>x. f x = h) ?js =
          filter (\<lambda>x. f x = h) (filter (\<lambda>(j, rc). j_tpdu j = tpdu_header (corr_of h)) ?js)"
        using f by (auto simp: asks_def filter_filter intro!: filter_cong)
      then have "length (filter (\<lambda>x. f x = h) ?js) \<le>
          length (filter (\<lambda>(j, rc). j_tpdu j = tpdu_header (corr_of h)) ?js)"
        by (metis length_filter_le)
      with le show ?thesis by linarith
    qed
  qed
  moreover have "list_all2 (\<lambda>h (j, rc). asks raw h j) (map f ?js) ?js"
    using f by (auto simp: list_all2_conv_all_nth split: prod.split) (metis fst_conv nth_mem)
  ultimately show ?thesis using f by (intro exI [of _ "map f ?js"]) auto
qed

text \<open>The request of a call as the issuer understands it, with the code and the flag it counts with.\<close>

definition counted ::
  "'m iso_lib \<Rightarrow> (nat \<Rightarrow> byte list) \<Rightarrow> (nat \<Rightarrow> string) \<Rightarrow> (nat \<Rightarrow> bool) \<Rightarrow> nat \<Rightarrow> ISOMessage \<times> string \<times> bool" where
  "counted lib raw code lost h = (message_of lib (hex_encode (raw h)), code h, lost h)"

lemma lost_flags_length: "lost_only_on_malfunction codes lost \<Longrightarrow> length lost = length codes"
  by (induction codes lost rule: lost_only_on_malfunction.induct) simp_all

lemma lost_flags_nth:
  "lost_only_on_malfunction codes lost \<Longrightarrow> i < length codes \<Longrightarrow> lost ! i \<Longrightarrow> codes ! i = RespSystemMalfunction"
proof (induction codes lost arbitrary: i rule: lost_only_on_malfunction.induct)
  case (2 c cs l ls)
  then show ?case by (cases i) auto
qed simp_all

text \<open>Lists of codes and flags along distinct calls are functions of the call.\<close>

definition at_call :: "'a \<Rightarrow> nat list \<Rightarrow> 'a list \<Rightarrow> nat \<Rightarrow> 'a" where
  "at_call d hs xs h = (case map_of (zip hs xs) h of None \<Rightarrow> d | Some x \<Rightarrow> x)"

lemma at_call_nth:
  "distinct hs \<Longrightarrow> length xs = length hs \<Longrightarrow> i < length hs \<Longrightarrow> at_call d hs xs (hs ! i) = xs ! i"
  by (simp add: at_call_def map_of_zip_nth)

lemma at_call_other: "h \<notin> set hs \<Longrightarrow> at_call d hs xs h = d"
  using map_of_zip_is_None [of hs xs h] by (auto simp: at_call_def split: option.split dest: map_of_SomeD set_zip_leftD)

lemma lost_at_call:
  assumes "lost_only_on_malfunction codes lost" "length codes = length hs" "distinct hs"
    and "at_call False hs lost h"
  shows "at_call d hs codes h = RespSystemMalfunction"
proof -
  have "h \<in> set hs" using assms(4) at_call_other [of h hs False lost] by auto
  then obtain i where i: "i < length hs" "h = hs ! i" by (metis in_set_conv_nth)
  note len = lost_flags_length [OF assms(1)]
  show ?thesis using lost_flags_nth [OF assms(1), of i] assms(2-4) len i
    by (simp add: at_call_nth)
qed

lemma counted_lists:
  assumes "distinct hs" "length codes = length hs" "length lost = length hs"
  shows "zip (map (\<lambda>h. message_of lib (hex_encode (raw h))) hs) (zip codes lost) =
    map (counted lib raw (at_call d hs codes) (at_call e hs lost)) hs"
  using assms by (intro nth_equalityI) (simp_all add: counted_def at_call_nth)

section \<open>The ledger of the calls\<close>

context card_store
begin

lemma network_ledger_calls:
  assumes "net_run lib ops cap raw st0 evs n" "\<And>h. fits_frame (raw h)" "lib_fits lib"
    and "iso_lib_faithful lib" "sw_calls (nw_switch n) < 2 ^ 32" "inv (is_store st0)"
  shows "\<exists>hs code lost. distinct hs \<and> (\<forall>h \<in> set hs. Sent h \<in> set (switch_events evs)) \<and>
    (\<forall>h r m. Responded h r \<in> set (switch_events evs) \<longrightarrow> ParseHexToMessage lib (hex_encode r) = Inr m \<longrightarrow>
       h \<in> set hs \<and> code h = RespCode m) \<and>
    (\<forall>h. lost h \<longrightarrow> code h = RespSystemMalfunction) \<and>
    (\<forall>p. bal (is_store (sv_issuer (nw_server n))) p = map_option
       (\<lambda>b. b + net_movement p (map (counted lib raw code lost) hs)) (bal (is_store st0) p))"
proof -
  note srv = server_side [OF assms(1)] and mux = switch_side [OF assms(1)]
  let ?ev = "server_events evs"
  obtain hs where hs: "distinct hs" "\<forall>h \<in> set hs. Sent h \<in> set (switch_events evs)"
    "list_all2 (\<lambda>h (j, rc). asks raw h j) hs (decided lib ?ev)"
    using decided_calls [OF assms(1,2,5)] by blast
  from server_ledger [OF srv assms(6)] obtain codes flags where
    c: "list_all2 code_agrees (handled lib ?ev) codes" "lost_only_on_malfunction codes flags"
    and bal: "\<And>p. bal (is_store (sv_issuer (nw_server n))) p = map_option
      (\<lambda>b. b + net_movement p (zip (map fst (handled lib ?ev)) (zip codes flags))) (bal (is_store st0) p)" by blast
  let ?js = "decided lib ?ev"
  have len: "length ?js = length hs" "length codes = length hs" "length flags = length hs"
    using list_all2_lengthD [OF hs(3)] list_all2_lengthD [OF c(1)] lost_flags_length [OF c(2)]
    by (simp_all add: handled_decided)
  have job: "asks raw (hs ! i) (fst (?js ! i))" if "i < length hs" for i
    using list_all2_nthD [OF hs(3) that] by (simp split: prod.splits)
  have "map fst (handled lib ?ev) = map (\<lambda>h. message_of lib (hex_encode (raw h))) hs"
    using len(1) job by (intro nth_equalityI) (auto simp: handled_decided asks_def case_prod_beta)
  then have movements: "zip (map fst (handled lib ?ev)) (zip codes flags) =
      map (counted lib raw (at_call [] hs codes) (at_call False hs flags)) hs"
    by (simp only: counted_lists [OF hs(1) len(2,3)])
  have answered: "h \<in> set hs \<and> at_call [] hs codes h = RespCode m"
    if r: "Responded h r \<in> set (switch_events evs)" and m: "ParseHexToMessage lib (hex_encode r) = Inr m" for h r m
  proof -
    have ans: "answer_to (switch_events evs) h r" by (rule run_answers [OF mux assms(5) r])
    then have "Called h \<in> set (switch_events evs)" by (auto simp: answer_to_def)
    then have h: "h < sw_calls (nw_switch n)" using mux_invD(4) [OF mux_run_inv [OF mux assms(5)]] by blast
    from own_answer [OF assms(1,3,2,5) ans h] obtain j m' env st st' where
      j: "Answered j (hex_encode r) m' \<in> set ?ev" "asks raw h j"
      and hh: "HandleHex lib (Some ops) env (hex_encode (raw h)) st = (Inr (hex_encode r, m'), st')" by blast
    obtain req where req: "ParseHexToMessage lib (j_req j) = Inr req"
      and pk: "PackMessageToHex lib (Some m') = Inr (hex_encode r)"
      using HandleHex_replyD [OF hh] j(2) unfolding asks_def by metis
    have code: "RespCode m = RespCode m'" using pack_parse [OF assms(4) pk] m by simp
    obtain i where i: "i < length ?js" "?js ! i = (j, Some (RespCode m'))"
      using decided_answered [OF j(1) req] by (metis in_set_conv_nth)
    have k: "asks raw (hs ! i) j" "hs ! i \<in> set hs" using job [of i] i len(1) by simp_all
    have "hs ! i < sw_calls (nw_switch n)" using sent_was_called [OF mux assms(5)] hs(2) k(2) by blast
    then have eq: "hs ! i = h" using k(1) j(2) h assms(5) corr_of_inj [of "hs ! i" h] by (simp add: asks_def)
    have "codes ! i = RespCode m'"
      using list_all2_nthD [OF c(1), of i] i len by (simp add: handled_decided code_agrees_def)
    with code eq k(2) at_call_nth [OF hs(1) len(2), of i] i(1) len(1) show ?thesis by simp
  qed
  have flags: "at_call [] hs codes h = RespSystemMalfunction" if "at_call False hs flags h" for h
    by (rule lost_at_call [OF c(2) len(2) hs(1) that])
  show ?thesis
    by (rule exI [of _ hs], rule exI [of _ "at_call [] hs codes"], rule exI [of _ "at_call False hs flags"])
      (use hs(1,2) answered flags bal [unfolded movements] in blast)
qed

end

end
