(* ===== verification/Concurrent.thy ===== *)
theory Concurrent
  imports Auth_Ledger Card_Service
begin

text \<open>
  All operations on the card table at the same time. The issuer's workers and the acquirer's card
  handlers run concurrently against one database: a statement is atomic, but an operation of two
  statements (a reversal, an update, a top-up) can have others between them. An operation in
  progress is a value of \<open>operation\<close> that carries what the Go function still has in its variables,
  and \<open>advance\<close> runs it to its next statement and through it.

  The lemmas show that an operation that runs alone is the function of the service it stands for,
  that no interleaving breaks the table or overdraws a card, and that authorizations are atomic:
  each ends as if it had run in one piece at its last statement.
\<close>

section \<open>Operations in progress\<close>

text \<open>
  \<open>CreditOp\<close> is a reversal that has looked up its card and parsed its amount, \<open>WriteOp\<close> an update
  that has merged its request into the row it read, \<open>ReadBackOp\<close> a top-up that has credited.
\<close>

datatype operation =
    RequestOp auth_env ISOMessage
  | CreditOp auth_env ISOMessage Card int64
  | CreateOp query_env CreateCardRequest
  | UpdateOp query_env query_env string UpdateCardRequest
  | WriteOp query_env Card
  | DeleteOp query_env string
  | TopUpOp query_env query_env string int64
  | ReadBackOp query_env string

datatype reply =
    Authorized "go_error + ISOMessage \<times> Decision"
  | CardReply "go_error + CardResponse"
  | Deleted "go_error + unit"

text \<open>What a reversal keeps of its lookup; any other request, or a lookup in vain, keeps nothing.\<close>

definition looked_up :: "'s CardStore \<Rightarrow> auth_env \<Rightarrow> ISOMessage \<Rightarrow> 's \<Rightarrow> (Card \<times> int64) option" where
  "looked_up ops env req s =
     (if is_reversal req then
        (case ParseAmount12 (AmountTrn req) of
           Inl _ \<Rightarrow> None
         | Inr amount \<Rightarrow>
             (case fst (cs_GetCardByPAN ops (ae_q1 env) (PAN req) s) of
                Inr (Some c) \<Rightarrow> Some (c, amount)
              | _ \<Rightarrow> None))
      else None)"

fun advance :: "'s CardStore \<Rightarrow> operation \<Rightarrow> 's \<Rightarrow> (operation + reply) \<times> 's" where
  "advance ops (RequestOp env req) s =
     (case looked_up ops env req s of
        Some (c, amount) \<Rightarrow>
          (Inl (CreditOp env req c amount), snd (cs_GetCardByPAN ops (ae_q1 env) (PAN req) s))
      | None \<Rightarrow> let (x, s') = Authorize ops env (Some req) s in (Inr (Authorized x), s'))"
| "advance ops (CreditOp env req c amount) s =
     (let (x, s') = cs_CreditBalance ops (ae_q2 env) (c_ID c) amount s
      in (Inr (Authorized (credit_answer env (response_of req) (new_decision env req) x)), s'))"
| "advance ops (CreateOp q req) s =
     (let (x, s') = CreateCard_service ops q req s in (Inr (CardReply x), s'))"
| "advance ops (UpdateOp q q' i req) s =
     (case cs_GetCardByID ops q i s of
        (Inl e, s') \<Rightarrow> (Inr (CardReply (Inl e)), s')
      | (Inr None, s') \<Rightarrow> (Inr (CardReply (Inl (Errorf ''card not found''))), s')
      | (Inr (Some existing), s') \<Rightarrow>
          (case merged_card existing req of
             Inl e \<Rightarrow> (Inr (CardReply (Inl e)), s')
           | Inr c \<Rightarrow> (Inl (WriteOp q' c), s')))"
| "advance ops (WriteOp q' c) s =
     (case cs_UpdateCard ops q' c s of
        (Inl e, s') \<Rightarrow> (Inr (CardReply (Inl e)), s')
      | (Inr updated, s') \<Rightarrow> (Inr (CardReply (Inr (card_response updated))), s'))"
| "advance ops (DeleteOp q i) s =
     (let (x, s') = DeleteCard_service ops q i s in (Inr (Deleted x), s'))"
| "advance ops (TopUpOp q q' i amount) s =
     (if amount \<le> 0 then (Inr (CardReply (Inl (Errorf ''amount must be positive''))), s)
      else (case cs_CreditBalance ops q i amount s of
              (Inl e, s') \<Rightarrow> (Inr (CardReply (Inl e)), s')
            | (Inr _, s') \<Rightarrow> (Inl (ReadBackOp q' i), s')))"
| "advance ops (ReadBackOp q' i) s =
     (case cs_GetCardByID ops q' i s of
        (Inr (Some c), s') \<Rightarrow> (Inr (CardReply (Inr (card_response c))), s')
      | (_, s') \<Rightarrow> (Inr (CardReply (Inl (Errorf ''card not found after top-up''))), s'))"

section \<open>Alone, an operation is the service's function\<close>

text \<open>An operation with the store to itself: two statements are enough for every one.\<close>

fun alone :: "nat \<Rightarrow> 's CardStore \<Rightarrow> operation \<Rightarrow> 's \<Rightarrow> reply option \<times> 's" where
  "alone 0 ops op s = (None, s)"
| "alone (Suc n) ops op s =
     (case advance ops op s of
        (Inr r, s') \<Rightarrow> (Some r, s')
      | (Inl op', s') \<Rightarrow> alone n ops op' s')"

lemma alone_request:
  "alone 2 ops (RequestOp env req) s =
     (let (x, s') = Authorize ops env (Some req) s in (Some (Authorized x), s'))"
proof (cases "looked_up ops env req s")
  case None
  then show ?thesis by (simp add: numeral_2_eq_2 split: prod.split)
next
  case (Some ca)
  obtain c a where ca: "ca = (c, a)" by force
  obtain s1 where look: "is_reversal req" "ParseAmount12 (AmountTrn req) = Inr a"
    "cs_GetCardByPAN ops (ae_q1 env) (PAN req) s = (Inr (Some c), s1)"
    using Some ca by (cases "cs_GetCardByPAN ops (ae_q1 env) (PAN req) s")
      (auto simp: looked_up_def split: if_splits sum.splits option.splits)
  show ?thesis
    using Some ca look
    by (simp add: numeral_2_eq_2 Authorize_def handleReversal_def Let_def split: prod.split)
qed

lemma alone_update:
  "alone 2 ops (UpdateOp q q' i req) s =
     (let (x, s') = UpdateCard_service ops q q' i req s in (Some (CardReply x), s'))"
proof -
  obtain x s1 where look: "cs_GetCardByID ops q i s = (x, s1)" by force
  show ?thesis
  proof (cases x rule: sum_option_cases)
    case (hit c)
    show ?thesis
    proof (cases "merged_card c req")
      case (Inr d)
      obtain y s2 where "cs_UpdateCard ops q' d s1 = (y, s2)" by force
      with look hit Inr show ?thesis
        by (cases y) (simp_all add: numeral_2_eq_2 UpdateCard_service_def)
    qed (use look hit in \<open>simp add: numeral_2_eq_2 UpdateCard_service_def\<close>)
  qed (use look in \<open>simp_all add: numeral_2_eq_2 UpdateCard_service_def\<close>)
qed

lemma alone_topup:
  "alone 2 ops (TopUpOp q q' i amount) s =
     (let (x, s') = TopUp ops q q' i amount s in (Some (CardReply x), s'))"
proof -
  obtain x s1 where cr: "cs_CreditBalance ops q i amount s = (x, s1)" by force
  obtain y s2 where again: "cs_GetCardByID ops q' i s1 = (y, s2)" by force
  show ?thesis
  proof (cases x)
    case (Inr u)
    with cr again show ?thesis
      by (cases y rule: sum_option_cases) (simp_all add: numeral_2_eq_2 TopUp_def)
  qed (use cr in \<open>simp add: numeral_2_eq_2 TopUp_def\<close>)
qed

lemma alone_single:
  "alone 2 ops (CreateOp q cr) s =
     (let (x, s') = CreateCard_service ops q cr s in (Some (CardReply x), s'))"
  "alone 2 ops (DeleteOp q i) s =
     (let (x, s') = DeleteCard_service ops q i s in (Some (Deleted x), s'))"
  by (simp_all add: numeral_2_eq_2 split: prod.split)

text \<open>
  The operations in progress are the services' functions cut at their statements: with the
  store to itself, each operation runs to the very result and store of the Go function it stands
  for, in at most two statements, over any store.
\<close>

lemma operations_run_the_services:
  "alone 2 ops (RequestOp env req) s =
      (let (x, s') = Authorize ops env (Some req) s in (Some (Authorized x), s')) \<and>
    alone 2 ops (CreateOp q cr) s =
      (let (x, s') = CreateCard_service ops q cr s in (Some (CardReply x), s')) \<and>
    alone 2 ops (UpdateOp q q' i ur) s =
      (let (x, s') = UpdateCard_service ops q q' i ur s in (Some (CardReply x), s')) \<and>
    alone 2 ops (DeleteOp q i) s =
      (let (x, s') = DeleteCard_service ops q i s in (Some (Deleted x), s')) \<and>
    alone 2 ops (TopUpOp q q' i amount) s =
      (let (x, s') = TopUp ops q q' i amount s in (Some (CardReply x), s'))"
  by (intro conjI alone_request alone_update alone_topup alone_single)

section \<open>Any interleaving\<close>

record 's database =
  db_store :: 's
  db_ops :: "operation list"

datatype db_event =
    Begun operation
  | Statement operation operation
  | Ended operation reply

text \<open>The operations a caller can begin.\<close>

fun starts :: "operation \<Rightarrow> bool" where
  "starts (CreditOp _ _ _ _) = False"
| "starts (WriteOp _ _) = False"
| "starts (ReadBackOp _ _) = False"
| "starts _ = True"

inductive db_step :: "'s CardStore \<Rightarrow> db_event \<Rightarrow> 's database \<Rightarrow> 's database \<Rightarrow> bool" for ops where
  begun: "starts op \<Longrightarrow> db_step ops (Begun op) s (s\<lparr>db_ops := db_ops s @ [op]\<rparr>)"
| statement: "db_ops s = xs @ op # ys \<Longrightarrow> advance ops op (db_store s) = (Inl op', st) \<Longrightarrow>
    db_step ops (Statement op op') s \<lparr>db_store = st, db_ops = xs @ op' # ys\<rparr>"
| ended: "db_ops s = xs @ op # ys \<Longrightarrow> advance ops op (db_store s) = (Inr r, st) \<Longrightarrow>
    db_step ops (Ended op r) s \<lparr>db_store = st, db_ops = xs @ ys\<rparr>"

inductive_cases db_stepE: "db_step ops ev s s'"

inductive db_run :: "'s CardStore \<Rightarrow> 's \<Rightarrow> db_event list \<Rightarrow> 's database \<Rightarrow> bool" for ops s0 where
  start: "db_run ops s0 [] \<lparr>db_store = s0, db_ops = []\<rparr>"
| step: "db_run ops s0 evs s \<Longrightarrow> db_step ops ev s s' \<Longrightarrow> db_run ops s0 (evs @ [ev]) s'"

section \<open>Card numbers and ids never change\<close>

definition pan_ids :: "cards \<Rightarrow> (string \<times> string) list" where
  "pan_ids t = map (\<lambda>r. (c_PAN r, c_ID r)) t"

definition grows :: "cards \<Rightarrow> cards \<Rightarrow> bool" where
  "grows t t' \<longleftrightarrow> (\<exists>new. pan_ids t' = pan_ids t @ new)"

lemma grows_same: "pan_ids t' = pan_ids t \<Longrightarrow> grows t t'"
  by (auto simp: grows_def)

lemma pan_ids_of: "map_of (pan_ids t) p = map_option c_ID (row_by_pan p t)"
  by (induction t) (auto simp: pan_ids_def row_by_pan_def)

lemma grows_pan:
  assumes "grows t t'" "row_by_pan p t = Some c"
  shows "\<exists>c'. row_by_pan p t' = Some c' \<and> c_ID c' = c_ID c"
proof -
  have "map_of (pan_ids t') p = Some (c_ID c)"
    using assms pan_ids_of [of t p] by (auto simp: grows_def map_add_Some_iff)
  then show ?thesis by (simp add: pan_ids_of)
qed

lemma pan_ids_update:
  "(\<And>r. c_PAN (f r) = c_PAN r) \<Longrightarrow> (\<And>r. c_ID (f r) = c_ID r) \<Longrightarrow>
   pan_ids (update_where P f t) = pan_ids t"
  by (simp add: pan_ids_def update_where_def)

lemma pan_ids_statement:
  assumes "exec_stmt q (sql_update P f) t = (x, t')"
    and "\<And>r. c_PAN (f r) = c_PAN r" "\<And>r. c_ID (f r) = c_ID r"
  shows "pan_ids t' = pan_ids t"
  using assms(1) pan_ids_update [of f P t, OF assms(2,3)]
  by (auto simp: exec_stmt_def sql_update_def split: fault.splits if_splits)

lemma pan_ids_methods:
  "pan_ids (snd (CreditBalance q i a t)) = pan_ids t"
  "pan_ids (snd (UpdateCard q c t)) = pan_ids t"
  "pan_ids (snd (SoftDeleteCard q i t)) = pan_ids t"
  by (auto simp: CreditBalance_def UpdateCard_def SoftDeleteCard_def
      split: sum.split prod.split elim!: pan_ids_statement)

lemma pan_ids_zip: "pan_ids t = zip (map c_PAN t) (map c_ID t)"
  by (induction t) (simp_all add: pan_ids_def)

lemma pan_ids_debit: "pan_ids (snd (AuthorizeAndDebit q pan a t)) = pan_ids t"
  by (simp add: pan_ids_zip AuthorizeAndDebit_keys)

lemma CreateCard_grows: "grows t (snd (CreateCard q c t))"
  by (auto simp: CreateCard_def exec_stmt_def sql_insert_def grows_def pan_ids_def
      split: option.split fault.split sum.split)

text \<open>What an authorization can have done to the store: one debit, one credit, or nothing.\<close>

lemma Authorize_store:
  "snd (Authorize postgres_cards env (Some req) t) = t \<or>
   (\<exists>a. snd (Authorize postgres_cards env (Some req) t) = snd (AuthorizeAndDebit (ae_q1 env) (PAN req) a t)) \<or>
   (\<exists>i a. snd (Authorize postgres_cards env (Some req) t) = snd (CreditBalance (ae_q2 env) i a t))"
proof (cases "ParseAmount12 (AmountTrn req)")
  case (Inl e)
  then show ?thesis by (simp add: Authorize_bad_amount)
next
  case amount: (Inr a)
  show ?thesis
  proof (cases "is_reversal req")
    case False
    then show ?thesis using Authorize_purchase(2) [OF _ amount, of postgres_cards env t] by auto
  next
    case True
    obtain x u where look: "GetCardByPAN (ae_q1 env) (PAN req) t = (x, u)" by force
    then have "u = t" using GetCardByPAN_answer by blast
    with True amount look show ?thesis
      by (cases x rule: sum_option_cases)
        (auto simp: Authorize_def handleReversal_def Let_def case_prod_beta)
  qed
qed

lemma advance_grows: "grows t (snd (advance postgres_cards op t))"
proof (cases op)
  case (RequestOp env req)
  have "pan_ids (snd (Authorize postgres_cards env (Some req) t)) = pan_ids t"
    using Authorize_store [of env req t] by (auto simp: pan_ids_methods pan_ids_debit)
  moreover have "snd (GetCardByPAN (ae_q1 env) (PAN req) t) = t"
    using GetCardByPAN_answer by (metis prod.collapse)
  ultimately show ?thesis
    by (auto simp: RequestOp intro!: grows_same split: option.split prod.split)
next
  case (CreateOp q r)
  have "grows t (snd (CreateCard_service postgres_cards q r t))"
    using CreateCard_grows [of t q] grows_same [of t t]
    by (auto simp: CreateCard_service_def postgres_cards_def split: sum.split prod.split) (metis snd_conv)+
  then show ?thesis by (simp add: CreateOp case_prod_beta)
next
  case (UpdateOp q q' i r)
  obtain x u where "GetCardByID q i t = (x, u)" by force
  moreover from this have "u = t" using GetCardByID_answer by blast
  ultimately show ?thesis
    by (cases x rule: sum_option_cases)
      (auto simp: UpdateOp postgres_cards_def intro!: grows_same split: sum.split)
next
  case (ReadBackOp q i)
  obtain x u where "GetCardByID q i t = (x, u)" by force
  moreover from this have "u = t" using GetCardByID_answer by blast
  ultimately show ?thesis
    by (cases x rule: sum_option_cases) (auto simp: ReadBackOp postgres_cards_def intro!: grows_same)
next
  case (CreditOp env req c a)
  obtain x u where "CreditBalance (ae_q2 env) (c_ID c) a t = (x, u)" by force
  with pan_ids_methods(1) [of "ae_q2 env" "c_ID c" a t] show ?thesis
    by (simp add: CreditOp grows_same)
next
  case (WriteOp q c)
  obtain x u where "UpdateCard q c t = (x, u)" by force
  with pan_ids_methods(2) [of q c t] show ?thesis
    by (cases x) (simp_all add: WriteOp postgres_cards_def grows_same)
next
  case (DeleteOp q i)
  obtain x u where "SoftDeleteCard q i t = (x, u)" by force
  with pan_ids_methods(3) [of q i t] show ?thesis
    by (simp add: DeleteOp DeleteCard_service_def postgres_cards_def grows_same)
next
  case (TopUpOp q q' i a)
  obtain x u where "CreditBalance q i a t = (x, u)" by force
  with pan_ids_methods(1) [of q i a t] show ?thesis
    by (cases x) (simp_all add: TopUpOp grows_same)
qed

section \<open>No interleaving overdraws\<close>

definition solvent :: "cards \<Rightarrow> bool" where
  "solvent t \<longleftrightarrow> table_ok t \<and> (\<forall>p b. balances t p = Some b \<longrightarrow> 0 \<le> b)"

text \<open>What an administrator asks for, or is about to write, is a balance of at least zero.\<close>

fun nonnegative :: "operation \<Rightarrow> bool" where
  "nonnegative (CreateOp q r) = (0 \<le> cr_AvailableBalance r \<and> in_int64 (cr_AvailableBalance r))"
| "nonnegative (UpdateOp q q' i r) =
     (case ur_AvailableBalance r of None \<Rightarrow> True | Some b \<Rightarrow> 0 \<le> b \<and> in_int64 b)"
| "nonnegative (WriteOp q c) = (0 \<le> c_AvailableBalance c \<and> in_int64 (c_AvailableBalance c))"
| "nonnegative _ = True"

lemma solvent_same: "solvent t \<Longrightarrow> table_ok u \<Longrightarrow> balances u = balances t \<Longrightarrow> solvent u"
  by (simp add: solvent_def)

lemma solvent_set: "solvent t \<Longrightarrow> table_ok u \<Longrightarrow> balances u = (balances t)(p \<mapsto> b) \<Longrightarrow> 0 \<le> b \<Longrightarrow> solvent u"
  by (auto simp: solvent_def)

lemma CreditBalance_solvent: "solvent t \<Longrightarrow> CreditBalance q i a t = (x, u) \<Longrightarrow> solvent u"
  using CreditBalance_by_id [of t q i a x u]
  by (auto simp: solvent_def move_def split: option.splits if_splits)

text \<open>A statement that rewrites the row with an id, whatever becomes of its reply.\<close>

lemma update_by_id_solvent:
  assumes "solvent t" "exec_stmt q (sql_update (\<lambda>r. c_ID r = i) f) t = (x, u)"
    and keys: "\<And>r. c_ID (f r) = c_ID r" "\<And>r. c_PAN (f r) = c_PAN r"
    and f: "\<And>c. row_by_id i t = Some c \<Longrightarrow>
      0 \<le> c_AvailableBalance (f c) \<and> in_int64 (c_AvailableBalance (f c))"
  shows "solvent u"
proof -
  have ok: "table_ok t" using assms(1) by (simp add: solvent_def)
  have u: "u = t \<or> u = snd (sql_update (\<lambda>r. c_ID r = i) f t)"
    using assms(2) by (auto simp: exec_stmt_def split: fault.splits)
  show ?thesis
  proof (cases "row_by_id i t")
    case None
    with u sql_update_missing [OF ok None, of f] assms(1) show ?thesis by auto
  next
    case (Some c)
    have "in_int64 (c_AvailableBalance (f c))" using f [OF Some] by blast
    note eff = sql_update_row_effect [OF ok Some keys this]
    with u show ?thesis
      using solvent_set [OF assms(1) eff(2,3)] f [OF Some] assms(1) by auto
  qed
qed

lemma UpdateCard_solvent:
  assumes "solvent t" "nonnegative (WriteOp q c)" "UpdateCard q c t = (x, u)"
  shows "solvent u"
  using assms(2,3)
  by (auto simp: UpdateCard_def split: sum.splits prod.splits if_splits
      elim!: update_by_id_solvent [OF assms(1)])

lemma row_nonnegative:
  assumes "solvent t" "row_by_id i t = Some c"
  shows "0 \<le> c_AvailableBalance c \<and> in_int64 (c_AvailableBalance c)"
proof -
  have ok: "table_ok t" using assms(1) by (simp add: solvent_def)
  then have "balances t (c_PAN c) = Some (c_AvailableBalance c)"
    using row_by_id_pan [OF ok assms(2)] by (simp add: balances_def)
  with assms ok balance_in_int64 show ?thesis by (auto simp: solvent_def)
qed

lemma SoftDeleteCard_solvent:
  assumes "solvent t" "SoftDeleteCard q i t = (x, u)"
  shows "solvent u"
  using assms(2)
  by (auto simp: SoftDeleteCard_def split: sum.splits prod.splits if_splits
      elim!: update_by_id_solvent [OF assms(1)]
      dest: row_nonnegative [OF assms(1), THEN conjunct1] row_nonnegative [OF assms(1), THEN conjunct2])

lemma CreateCard_solvent:
  assumes "solvent t" "0 \<le> c_AvailableBalance c" "in_int64 (c_AvailableBalance c)"
    and "CreateCard q (Some c) t = (x, u)"
  shows "solvent u"
proof -
  have ok: "table_ok t" using assms(1) by (simp add: solvent_def)
  from CreateCard_answer [OF ok assms(3,4)] show ?thesis
    using solvent_same [OF assms(1)] solvent_set [OF assms(1)] assms(2) by (auto split: sum.splits)
qed

lemma Authorize_solvent: "solvent t \<Longrightarrow> solvent (snd (Authorize postgres_cards env (Some req) t))"
  using pg.authorize_money [of t env req] pg.authorize_solvent [of t env req]
  by (simp add: solvent_def)

lemma merged_nonnegative:
  assumes "solvent t" "row_by_id i t = Some c" "nonnegative (UpdateOp q q' i r)" "merged_card c r = Inr d"
  shows "nonnegative (WriteOp q' d)"
proof -
  have "c_AvailableBalance d =
      (case ur_AvailableBalance r of None \<Rightarrow> c_AvailableBalance c | Some b \<Rightarrow> b)"
    using assms(4) by (auto simp: merged_card_def Let_def split: if_splits)
  with row_nonnegative [OF assms(1,2)] assms(3) show ?thesis by (auto split: option.splits)
qed

lemma advance_solvent:
  assumes "solvent t" "nonnegative op" "advance postgres_cards op t = (y, u)"
  shows "solvent u \<and> (\<forall>op'. y = Inl op' \<longrightarrow> nonnegative op')"
proof (cases op)
  case (RequestOp env req)
  have look: "snd (GetCardByPAN (ae_q1 env) (PAN req) t) = t"
    using GetCardByPAN_answer by (metis prod.collapse)
  from assms(3) look Authorize_solvent [OF assms(1), of env req] assms(1) show ?thesis
    by (auto simp: RequestOp case_prod_beta split: option.splits)
next
  case (CreditOp env req c a)
  obtain x v where "CreditBalance (ae_q2 env) (c_ID c) a t = (x, v)" by force
  with CreditBalance_solvent [OF assms(1)] assms(3) show ?thesis by (auto simp: CreditOp)
next
  case (CreateOp q r)
  obtain x v where v: "CreateCard_service postgres_cards q r t = (x, v)" by force
  have "solvent v"
  proof (cases "new_card r")
    case (Inl e)
    with v assms(1) show ?thesis by (auto simp: CreateCard_service_def)
  next
    case (Inr c)
    obtain z w where w: "CreateCard q (Some c) t = (z, w)" by force
    have "0 \<le> c_AvailableBalance c" "in_int64 (c_AvailableBalance c)"
      using new_card_InrD(8) [OF Inr] assms(2) by (simp_all add: CreateOp)
    from CreateCard_solvent [OF assms(1) this w] v w Inr show ?thesis
      by (cases z) (auto simp: CreateCard_service_def postgres_cards_def)
  qed
  with assms(3) v show ?thesis by (auto simp: CreateOp)
next
  case (UpdateOp q q' i r)
  obtain x v where v: "GetCardByID q i t = (x, v)" by force
  then have look: "v = t" "\<And>c. x = Inr (Some c) \<Longrightarrow> row_by_id i t = Some c"
    using GetCardByID_answer by auto
  have get: "cs_GetCardByID postgres_cards = GetCardByID" by (simp add: postgres_cards_def)
  show ?thesis
  proof (cases x rule: sum_option_cases)
    case (hit c)
    with assms look v merged_nonnegative [OF assms(1), of i c q q' r] show ?thesis
      by (cases "merged_card c r") (auto simp: UpdateOp get)
  qed (use assms look v in \<open>auto simp: UpdateOp get\<close>)
next
  case (WriteOp q c)
  obtain x v where v: "UpdateCard q c t = (x, v)" by force
  with UpdateCard_solvent [OF assms(1) _ v] assms(2,3) show ?thesis
    by (cases x) (auto simp: WriteOp postgres_cards_def)
next
  case (DeleteOp q i)
  obtain x v where "SoftDeleteCard q i t = (x, v)" by force
  with SoftDeleteCard_solvent [OF assms(1)] assms(3) show ?thesis
    by (auto simp: DeleteOp DeleteCard_service_def postgres_cards_def)
next
  case (TopUpOp q q' i a)
  obtain x v where v: "CreditBalance q i a t = (x, v)" by force
  with CreditBalance_solvent [OF assms(1) v] assms(1,3) show ?thesis
    by (cases x) (auto simp: TopUpOp split: if_splits)
next
  case (ReadBackOp q i)
  obtain x v where v: "GetCardByID q i t = (x, v)" by force
  then have look: "v = t" using GetCardByID_answer by blast
  show ?thesis
    by (cases x rule: sum_option_cases)
      (use assms look v in \<open>auto simp: ReadBackOp postgres_cards_def\<close>)
qed

lemma db_run_solvent:
  assumes "db_run postgres_cards t0 evs s" "solvent t0" "\<forall>op. Begun op \<in> set evs \<longrightarrow> nonnegative op"
  shows "solvent (db_store s) \<and> (\<forall>op \<in> set (db_ops s). nonnegative op)"
  using assms
proof (induction rule: db_run.induct)
  case (step evs s ev s')
  then have IH: "solvent (db_store s)" "\<forall>op \<in> set (db_ops s). nonnegative op" by auto
  from step.hyps(2) show ?case
  proof cases
    case (begun op)
    then show ?thesis using IH step.prems(2) by auto
  next
    case (statement xs op ys op' st)
    then show ?thesis using IH advance_solvent [OF IH(1) _ statement(4)] by auto
  next
    case (ended xs op ys r st)
    then show ?thesis using IH advance_solvent [OF IH(1) _ ended(4)] by auto
  qed
qed simp

section \<open>Authorizations are atomic\<close>

text \<open>
  What a pending credit knows stays true whatever happens in between, so the credit by id is the
  credit by card number that \<open>Authorize\<close> would make at that moment.
\<close>

definition credit_ready :: "cards \<Rightarrow> operation \<Rightarrow> bool" where
  "credit_ready t op \<longleftrightarrow>
     (case op of
        CreditOp env req c a \<Rightarrow>
          is_reversal req \<and> ParseAmount12 (AmountTrn req) = Inr a \<and> q_fault (ae_q1 env) = Done \<and>
          map_option c_ID (row_by_pan (PAN req) t) = Some (c_ID c)
      | _ \<Rightarrow> True)"

lemma credit_ready_grows: "grows t u \<Longrightarrow> credit_ready t op \<Longrightarrow> credit_ready u op"
  using grows_pan [of t u] by (fastforce simp: credit_ready_def split: operation.splits)

lemma advance_ready: "advance postgres_cards op t = (Inl op', u) \<Longrightarrow> credit_ready u op'"
proof (cases op)
  case (RequestOp env req)
  assume adv: "advance postgres_cards op t = (Inl op', u)"
  then obtain c a where ca: "looked_up postgres_cards env req t = Some (c, a)" "op' = CreditOp env req c a"
    "u = snd (GetCardByPAN (ae_q1 env) (PAN req) t)"
    by (auto simp: RequestOp case_prod_beta split: option.splits)
  obtain x v where v: "GetCardByPAN (ae_q1 env) (PAN req) t = (x, v)" by force
  with ca(1) have look: "is_reversal req" "ParseAmount12 (AmountTrn req) = Inr a" "x = Inr (Some c)"
    by (auto simp: looked_up_def split: if_splits sum.splits option.splits)
  have "q_fault (ae_q1 env) = Done"
    using v look(3) by (auto simp: GetCardByPAN_def exec_stmt_def split: fault.splits)
  with look ca v GetCardByPAN_answer [OF v] show ?thesis by (simp add: credit_ready_def)
qed (auto simp: credit_ready_def Let_def split: sum.splits prod.splits option.splits if_splits)

lemma db_run_ready: "db_run postgres_cards t0 evs s \<Longrightarrow> \<forall>op \<in> set (db_ops s). credit_ready (db_store s) op"
proof (induction rule: db_run.induct)
  case (step evs s ev s')
  from step.hyps(2) show ?case
  proof cases
    case (begun op)
    then have "credit_ready (db_store s) op" by (cases op) (simp_all add: credit_ready_def)
    with step.IH begun show ?thesis by simp
  next
    case (statement xs op ys op' st)
    have "grows (db_store s) st" using advance_grows [of "db_store s" op] statement(4) by simp
    with step.IH statement advance_ready [OF statement(4)] credit_ready_grows show ?thesis by auto
  next
    case (ended xs op ys r st)
    have "grows (db_store s) st" using advance_grows [of "db_store s" op] ended(4) by simp
    with step.IH ended credit_ready_grows show ?thesis by auto
  qed
qed simp

lemma credit_is_authorize:
  assumes "credit_ready t (CreditOp env req c a)"
  shows "advance postgres_cards (CreditOp env req c a) t =
    (let (x, u) = Authorize postgres_cards env (Some req) t in (Inr (Authorized x), u))"
proof -
  obtain c' where c': "row_by_pan (PAN req) t = Some c'" "c_ID c' = c_ID c"
    and req: "is_reversal req" "ParseAmount12 (AmountTrn req) = Inr a" "q_fault (ae_q1 env) = Done"
    using assms by (auto simp: credit_ready_def)
  have "GetCardByPAN (ae_q1 env) (PAN req) t = (Inr (Some c'), t)"
    using c' req by (simp add: GetCardByPAN_def sql_select_by_pan_def)
  with c' req show ?thesis
    by (simp add: Authorize_def handleReversal_def Let_def case_prod_beta)
qed

fun request_of :: "operation \<Rightarrow> (auth_env \<times> ISOMessage) option" where
  "request_of (RequestOp env req) = Some (env, req)"
| "request_of (CreditOp env req _ _) = Some (env, req)"
| "request_of _ = None"

lemma ended_atomically:
  assumes "credit_ready t op" "advance postgres_cards op t = (Inr r, u)" "request_of op = Some (env, req)"
  shows "\<exists>x. r = Authorized x \<and> Authorize postgres_cards env (Some req) t = (x, u)"
proof (cases op)
  case (RequestOp e q)
  with assms(2,3) show ?thesis by (auto split: option.splits prod.splits)
next
  case (CreditOp e q c a)
  with credit_is_authorize assms show ?thesis by (auto simp: case_prod_beta prod_eq_iff)
qed (use assms(3) in simp_all)

lemma lookup_changes_nothing:
  assumes "advance postgres_cards op t = (Inl op', u)" "request_of op = Some er"
  shows "u = t \<and> request_of op' = Some er"
proof (cases op)
  case (RequestOp env req)
  have "snd (GetCardByPAN (ae_q1 env) (PAN req) t) = t"
    using GetCardByPAN_answer by (metis prod.collapse)
  with RequestOp assms show ?thesis by (auto simp: case_prod_beta split: option.splits)
qed (use assms in \<open>auto split: prod.splits\<close>)

text \<open>The requests and answers of a run in the order they ended, and the engine run in turn.\<close>

fun ended_requests :: "db_event list \<Rightarrow> (auth_env \<times> ISOMessage) list" where
  "ended_requests [] = []"
| "ended_requests (Ended op (Authorized x) # evs) = the (request_of op) # ended_requests evs"
| "ended_requests (_ # evs) = ended_requests evs"

fun ended_answers :: "db_event list \<Rightarrow> (go_error + ISOMessage \<times> Decision) list" where
  "ended_answers [] = []"
| "ended_answers (Ended op (Authorized x) # evs) = x # ended_answers evs"
| "ended_answers (_ # evs) = ended_answers evs"

fun in_turn ::
  "'s CardStore \<Rightarrow> (auth_env \<times> ISOMessage) list \<Rightarrow> 's \<Rightarrow> (go_error + ISOMessage \<times> Decision) list \<times> 's" where
  "in_turn ops [] s = ([], s)"
| "in_turn ops ((env, req) # rest) s =
     (let (x, s') = Authorize ops env (Some req) s; (xs, t) = in_turn ops rest s' in (x # xs, t))"

lemma ended_append [simp]:
  "ended_requests (evs @ evs') = ended_requests evs @ ended_requests evs'"
  "ended_answers (evs @ evs') = ended_answers evs @ ended_answers evs'"
  by (induction evs rule: ended_requests.induct) simp_all

lemma in_turn_snoc:
  "in_turn ops xs s = (as, u) \<Longrightarrow> Authorize ops env (Some req) u = (x, v) \<Longrightarrow>
   in_turn ops (xs @ [(env, req)]) s = (as @ [x], v)"
  by (induction ops xs s arbitrary: as rule: in_turn.induct) (auto simp: Let_def split: prod.splits)

lemma in_turn_codes:
  "run_requests ops reqs s = (let (xs, t) = in_turn ops reqs s in (map code_of xs, t))"
  by (induction ops reqs s rule: in_turn.induct) (auto simp: Let_def split: prod.split)

lemma requests_only:
  assumes "db_run postgres_cards t0 evs s" "\<forall>op. Begun op \<in> set evs \<longrightarrow> request_of op \<noteq> None"
  shows "\<forall>op \<in> set (db_ops s). request_of op \<noteq> None"
  using assms
proof (induction rule: db_run.induct)
  case (step evs s ev s')
  then have IH: "\<forall>op \<in> set (db_ops s). request_of op \<noteq> None" by auto
  from step.hyps(2) show ?case
  proof cases
    case (statement xs op ys op' st)
    then obtain er where "request_of op = Some er" using IH by auto
    from lookup_changes_nothing [OF statement(4) this] IH statement show ?thesis by auto
  qed (use IH step.prems in auto)
qed simp

lemma db_run_serial:
  assumes "db_run postgres_cards t0 evs s" "\<forall>op. Begun op \<in> set evs \<longrightarrow> request_of op \<noteq> None"
  shows "in_turn postgres_cards (ended_requests evs) t0 = (ended_answers evs, db_store s)"
  using assms
proof (induction rule: db_run.induct)
  case (step evs s ev s')
  then have IH: "in_turn postgres_cards (ended_requests evs) t0 = (ended_answers evs, db_store s)"
    and only: "\<forall>op \<in> set (db_ops s). request_of op \<noteq> None"
    using requests_only [OF step.hyps(1)] by auto
  from step.hyps(2) show ?case
  proof cases
    case (begun op)
    with IH show ?thesis by simp
  next
    case (statement xs op ys op' st)
    then obtain er where "request_of op = Some er" using only by auto
    from lookup_changes_nothing [OF statement(4) this] IH statement show ?thesis by simp
  next
    case (ended xs op ys r st)
    then obtain env req where er: "request_of op = Some (env, req)" using only by auto
    have "credit_ready (db_store s) op" using db_run_ready [OF step.hyps(1)] ended(3) by simp
    from ended_atomically [OF this ended(4) er] obtain x where
      "r = Authorized x" "Authorize postgres_cards env (Some req) (db_store s) = (x, st)" by blast
    with in_turn_snoc [OF IH] er ended show ?thesis by simp
  qed
qed simp

end
