(* ===== verification/Examples.thy ===== *)
theory Examples
  imports Network Concurrent
begin

text \<open>
  Concrete data for the witnesses: one card, a purchase and a reversal on it, an environment in
  which everything answers, and a codec library given by a code book of messages, which meets the
  two hypotheses about the library.
\<close>

section \<open>A card and two requests\<close>

definition ex_pan :: string where "ex_pan = ''4539578763621486''"

definition ex_card :: Card where
  "ex_card = \<lparr>c_ID = ''c1'', c_PAN = ex_pan, c_ExpiryDate = ''3012'', c_Status = ''ACTIVE'',
     c_Scheme = ''VISA'', c_CurrencyCode = ''949'', c_CreditLimit = 0, c_AvailableBalance = 10000,
     c_PinHash = None, c_CvvHash = None, c_CreatedAt = 0, c_UpdatedAt = 0\<rparr>"

definition ex_table :: cards where "ex_table = [ex_card]"

definition ex_q :: query_env where
  "ex_q = \<lparr>q_acquire = None, q_fault = Done, q_now = 0, q_id = ''r1''\<rparr>"

definition ex_env :: auth_env where
  "ex_env = \<lparr>ae_q1 = ex_q, ae_q2 = ex_q, ae_now = 0, ae_rand = (\<lambda>_. 0), ae_elapsed = 0\<rparr>"

definition ex_purchase :: ISOMessage where
  "ex_purchase = empty_message\<lparr>MTI := ''0100'', PAN := ex_pan, AmountTrn := ''000000001500'',
                               STAN := ''000001''\<rparr>"

definition ex_reversal :: ISOMessage where
  "ex_reversal = ex_purchase\<lparr>MTI := ''0400''\<rparr>"

lemmas ex_defs = ex_card_def ex_table_def ex_q_def ex_env_def

lemma ex_table_ok [simp]: "table_ok ex_table"
  by (simp add: table_ok_def ex_table_def ex_card_def in_int64_def int64_min_def int64_max_def)

lemma ex_db_up [simp]: "db_up ex_env" "no_lost_reply ex_env"
  by (simp_all add: db_up_def no_lost_reply_def ex_env_def ex_q_def)

lemma ex_row [simp]: "row_by_pan ex_pan ex_table = Some ex_card" "row_by_id ''c1'' ex_table = Some ex_card"
  by (simp_all add: row_by_pan_def row_by_id_def ex_table_def ex_card_def)

lemma ex_fields [simp]:
  "PAN ex_purchase = ex_pan" "PAN ex_reversal = ex_pan" "\<not> is_reversal ex_purchase" "is_reversal ex_reversal"
  "AmountTrn ex_purchase = ''000000001500''" "AmountTrn ex_reversal = ''000000001500''"
  by (simp_all add: ex_purchase_def ex_reversal_def is_reversal_def)

lemma ex_amount [simp]: "ParseAmount12 ''000000001500'' = Inr 1500"
  by (simp add: ParseAmount12_eq dec_value_def digit_val_def is_digit_byte_def)

lemma ex_balances [simp]: "balances ex_table ex_pan = Some 10000"
  by (simp add: balances_def) (simp add: ex_card_def)

lemma ex_solvent: "\<forall>p b. balances ex_table p = Some b \<longrightarrow> 0 \<le> b"
  by (auto simp: balances_def ex_table_def row_by_pan_def ex_card_def split: if_splits)

section \<open>A library given by a code book\<close>

fun index_of :: "'a \<Rightarrow> 'a list \<Rightarrow> nat option" where
  "index_of x [] = None"
| "index_of x (y # ys) = (if x = y then Some 0 else map_option Suc (index_of x ys))"

lemma index_of_nth: "index_of x ys = Some i \<Longrightarrow> i < length ys \<and> ys ! i = x"
  by (induction ys arbitrary: i) (auto split: if_splits)

definition book_lib :: "ISOMessage list \<Rightarrow> ISOMessage iso_lib" where
  "book_lib book =
     \<lparr>lib_unpack = (\<lambda>bs. case bs of
          [b] \<Rightarrow> if unat b < length book then Inr (book ! unat b) else Inl (Errorf ''unknown message'')
        | _ \<Rightarrow> Inl (Errorf ''bad length'')),
      lib_unmarshal = Inr,
      lib_get_mti = (\<lambda>m. Inr (MTI m)),
      lib_marshal = (\<lambda>_ m. Inr (m\<lparr>Bitmap := []\<rparr>)),
      lib_pack = (\<lambda>m. case index_of m book of
          Some i \<Rightarrow> if i < 256 then Inr [of_nat i] else Inl (Errorf ''book too long'')
        | None \<Rightarrow> Inl (Errorf ''not in the book''))\<rparr>"

lemma book_lib_faithful: "iso_lib_faithful (book_lib book)"
  unfolding iso_lib_faithful_def
proof (intro allI impI)
  fix m x bs
  assume "lib_marshal (book_lib book) (MTI m) m = Inr x" "lib_pack (book_lib book) x = Inr bs"
  then obtain i where i: "x = m\<lparr>Bitmap := []\<rparr>" "index_of x book = Some i" "i < 256" "bs = [of_nat i]"
    by (auto simp: book_lib_def split: option.splits if_splits)
  have u: "unat (of_nat i :: byte) = i" using i(3) by (simp add: unat_of_nat)
  from index_of_nth [OF i(2)] i u
  show "bs \<noteq> [] \<and> (\<exists>y m'. lib_unpack (book_lib book) bs = Inr y \<and>
      lib_get_mti (book_lib book) y = Inr (MTI m) \<and> lib_unmarshal (book_lib book) y = Inr m' \<and>
      m'\<lparr>MTI := MTI m\<rparr> = m\<lparr>Bitmap := []\<rparr>)"
    by (simp add: book_lib_def)
qed

lemma book_lib_fits: "lib_fits (book_lib book)"
  unfolding lib_fits_def
proof (intro allI impI)
  fix m h bs
  assume "PackMessageToHex (book_lib book) (Some m) = Inr h" and d: "hex_decode h = Inr bs"
  then obtain i where "h = hex_encode [of_nat i]"
    by (auto simp: PackMessageToHex_def book_lib_def split: option.splits if_splits)
  with d have "bs = [of_nat i]" by (metis hex_decode_encode sum.inject(2))
  then show "fits_frame bs" by (simp add: fits_frame_def)
qed

section \<open>A transaction from end to end\<close>

definition ex_response :: ISOMessage where
  "ex_response = ex_purchase\<lparr>MTI := ''0110'', RespCode := ''00'', AuthRespID := ''000000''\<rparr>"

definition ex_lib :: "ISOMessage iso_lib" where
  "ex_lib = book_lib [ex_purchase, ex_response]"

definition ex_link :: link_env where
  "ex_link = \<lparr>le_send = \<lparr>se_conn = (\<lambda>_ _. True), se_others = (\<lambda>_. 0), se_write = (\<lambda>_. None)\<rparr>,
     le_pool = 1, le_index = 0, le_corr = 1, le_dropped = False, le_late = False, le_issuer = ex_env\<rparr>"

definition ex_start :: acquirer_state where
  "ex_start = \<lparr>aq_link = \<lparr>is_store = ex_table, is_audit = []\<rparr>, aq_audit = []\<rparr>"

definition ex_req_hex :: string where "ex_req_hex = hex_encode [0]"
definition ex_resp_hex :: string where "ex_resp_hex = hex_encode [1]"

lemma ex_hex:
  "hex_decode ex_req_hex = Inr [0]" "hex_encode [0] = ex_req_hex" "hex_encode [1] = ex_resp_hex"
  unfolding ex_req_hex_def ex_resp_hex_def by (rule hex_decode_encode refl)+

lemma ex_pack:
  "PackMessageToHex ex_lib (Some ex_purchase) = Inr ex_req_hex"
  "PackMessageToHex ex_lib (Some ex_response) = Inr ex_resp_hex"
proof -
  have "ex_purchase\<lparr>Bitmap := []\<rparr> = ex_purchase" "ex_response\<lparr>Bitmap := []\<rparr> = ex_response"
    "MTI ex_purchase \<noteq> MTI ex_response"
    by (simp_all add: ex_purchase_def ex_response_def empty_message_def)
  then show "PackMessageToHex ex_lib (Some ex_purchase) = Inr ex_req_hex"
    "PackMessageToHex ex_lib (Some ex_response) = Inr ex_resp_hex"
    unfolding ex_req_hex_def ex_resp_hex_def by (auto simp: PackMessageToHex_def ex_lib_def book_lib_def)
qed

lemma ex_lib_ok [simp]: "iso_lib_faithful ex_lib" "lib_fits ex_lib"
  by (simp_all add: ex_lib_def book_lib_faithful book_lib_fits)

lemma ex_parse:
  "ParseHexToMessage ex_lib ex_req_hex = Inr ex_purchase"
  "ParseHexToMessage ex_lib ex_resp_hex = Inr ex_response"
  using pack_parse_same [OF ex_lib_ok(1) ex_pack(1)] pack_parse_same [OF ex_lib_ok(1) ex_pack(2)]
  by (simp_all add: ex_purchase_def ex_response_def empty_message_def)

lemma ex_debit:
  "\<exists>t. AuthorizeAndDebit ex_q ex_pan 1500 ex_table =
     (Inr (Some \<lparr>r_Card = Some ex_card, r_BalanceBefore = 10000, r_BalanceAfter = 8500, r_Debited = True\<rparr>), t)"
proof -
  have "c_AvailableBalance ex_card = 10000" "c_Status ex_card = ''ACTIVE''" by (simp_all add: ex_card_def)
  then show ?thesis
    by (simp add: AuthorizeAndDebit_def ex_q_def sql_authorize_found [OF ex_table_ok ex_row(1)])
qed

lemma ex_authorized: "\<exists>dec t. Authorize postgres_cards ex_env (Some ex_purchase) ex_table = (Inr (ex_response, dec), t)"
proof -
  have "generateAuthCode6 (\<lambda>_. 0) = ''000000''" by (simp add: generateAuthCode6_def char_of_eq_iff take_bit_eq_mod)
  moreover have "response_of ex_purchase = ex_purchase\<lparr>MTI := ''0110''\<rparr>"
    by (simp add: response_of_def ex_purchase_def)
  ultimately show ?thesis
    using ex_debit by (auto simp: Authorize_def debit_answer_def Let_def ex_response_def ex_env_def resp_codes)
qed

lemma ex_handled:
  "\<exists>st'. HandleHex ex_lib (Some postgres_cards) ex_env ex_req_hex \<lparr>is_store = ex_table, is_audit = []\<rparr> =
     (Inr (ex_resp_hex, ex_response), st')"
  using ex_authorized
  by (auto simp: HandleHex_def ex_parse engine_answer_def ex_pack Let_def)

lemma ex_request:
  "\<exists>st'. HandleTerminalRequest ex_lib postgres_cards ex_link [0] \<lparr>is_store = ex_table, is_audit = []\<rparr> =
     (Inr [1], st')"
proof -
  have send: "\<exists>j. sendToIssuer (le_send ex_link) 1 [0] 1 0 = (None, j, [(0, request_packet [0] 1)])"
    by (simp add: sendToIssuer_def ex_link_def numeral_3_eq_3)
  have rd: "readTPDUFrame \<lparr>in_bytes = request_packet [0] 1, in_end = EOF\<rparr> =
      (Inr (tpdu_header 1, ex_req_hex), \<lparr>in_bytes = [], in_end = EOF\<rparr>)"
    unfolding ex_req_hex_def using request_on_the_wire [of "[0]" 1 "[]" EOF] by simp
  have wr: "writeTPDUFrame ex_resp_hex (tpdu_header 1) = Inr (frame (tpdu_header 1 @ [1]))"
    unfolding ex_resp_hex_def by (rule writeTPDUFrame_frame)
  have rp: "readTPDUPacket \<lparr>in_bytes = frame (tpdu_header 1 @ [1]), in_end = EOF\<rparr> =
      (Inr (tpdu_header 1 @ [1]), \<lparr>in_bytes = [], in_end = EOF\<rparr>)"
    using readTPDUPacket_frame [of "tpdu_header 1 @ [1]" "[]" EOF] by simp
  have env: "le_pool ex_link = 1" "le_corr ex_link = 1" "le_index ex_link = 0" "\<not> le_dropped ex_link"
    "\<not> le_late ex_link" "le_issuer ex_link = ex_env" by (simp_all add: ex_link_def)
  obtain j st' where "sendToIssuer (le_send ex_link) 1 [0] 1 0 = (None, j, [(0, request_packet [0] 1)])"
    "HandleHex ex_lib (Some postgres_cards) ex_env ex_req_hex \<lparr>is_store = ex_table, is_audit = []\<rparr> =
       (Inr (ex_resp_hex, ex_response), st')"
    using send ex_handled by blast
  then show ?thesis
    by (simp add: HandleTerminalRequest_def env rd wr rp packet_corrID_header)
qed

lemma ex_transaction:
  "\<exists>st'. transact ex_lib ex_link (Some ex_purchase) ex_start =
     ((200, JAnswer ex_req_hex ex_resp_hex ex_response), st')"
proof -
  obtain st' where r: "HandleTerminalRequest ex_lib postgres_cards ex_link [0]
      \<lparr>is_store = ex_table, is_audit = []\<rparr> = (Inr [1], st')" using ex_request by blast
  show ?thesis
    unfolding transact_def handleTransaction_def option.case ex_pack sum.case ex_hex(1)
    by (simp only: ex_start_def acquirer.simps r prod.case sum.case Let_def ex_hex ex_parse) simp
qed

section \<open>The server on one request\<close>

definition ex_job :: job where
  "ex_job = \<lparr>j_conn = 0, j_tpdu = tpdu_header 1, j_req = ex_req_hex\<rparr>"

definition ex_events :: "server_event list" where
  "ex_events = [Admitted ex_job, Answered ex_job ex_resp_hex ex_response,
     Replied ex_job ex_resp_hex (frame (tpdu_header 1 @ [1]))]"

lemma ex_server: "\<exists>s. server_run ex_lib postgres_cards 1 \<lparr>is_store = ex_table, is_audit = []\<rparr> ex_events s"
proof -
  let ?st0 = "\<lparr>is_store = ex_table, is_audit = []\<rparr>"
  let ?s1 = "\<lparr>sv_pool = [Fresh ex_job], sv_issuer = ?st0\<rparr>"
  obtain st' where h: "HandleHex ex_lib (Some postgres_cards) ex_env (j_req ex_job) ?st0 =
      (Inr (ex_resp_hex, ex_response), st')" using ex_handled by (auto simp: ex_job_def)
  let ?s2 = "\<lparr>sv_pool = [Handled ex_job ex_resp_hex ex_response], sv_issuer = st'\<rparr>"
  have w: "write_answer None ex_job ex_resp_hex = Inr (frame (tpdu_header 1 @ [1]))"
    using writeTPDUFrame_frame [of "[1]" "tpdu_header 1", folded ex_resp_hex_def]
    by (simp add: write_answer_def ex_job_def)
  have "server_run ex_lib postgres_cards 1 ?st0 ([] @ [Admitted ex_job]) ?s1"
    using server_run.step [OF server_run.start server_step.admit [of _ 1 ex_lib postgres_cards ex_job]]
    by simp
  from server_run.step [OF this server_step.handle [where xs = "[]" and ys = "[]" and j = ex_job]] h
  have "server_run ex_lib postgres_cards 1 ?st0 [Admitted ex_job, Answered ex_job ex_resp_hex ex_response] ?s2"
    by simp
  from server_run.step [OF this server_step.write_ok [where xs = "[]" and ys = "[]", OF _ w]]
  show ?thesis unfolding ex_events_def by auto
qed

section \<open>Administration\<close>

definition ex_create :: CreateCardRequest where
  "ex_create = \<lparr>cr_PAN = ex_pan, cr_ExpiryDate = ''3012'', cr_Scheme = [], cr_CurrencyCode = [],
     cr_CreditLimit = 0, cr_AvailableBalance = 700, cr_Pin = None, cr_CVV = None\<rparr>"

definition ex_freeze :: UpdateCardRequest where
  "ex_freeze = \<lparr>ur_ExpiryDate = [], ur_Scheme = [], ur_CurrencyCode = [], ur_CreditLimit = None,
     ur_AvailableBalance = None, ur_Status = ''FROZEN''\<rparr>"

definition ex_rename :: UpdateCardRequest where
  "ex_rename = ex_freeze\<lparr>ur_Scheme := ''MC'', ur_Status := []\<rparr>"

lemma ex_digits: "ascii_digits ex_pan" "ascii_digits ''3012''"
  by (simp_all add: ex_pan_def is_digit_byte_def)

lemma ex_pan_ok: "remove_blanks (trim_space ex_pan) = ex_pan" "isDigits ex_pan" "luhnValid ex_pan"
proof -
  show "luhnValid ex_pan" unfolding luhnValid_weight [OF ex_digits(1)]
    by (simp add: ex_pan_def luhn_digit_def digit_val_def)
qed (simp_all add: ex_digits trim_space_digits remove_blanks_digits ascii_digits_isDigits)

lemma ex_texts:
  "trim_space ''3012'' = ''3012''" "isDigits ''3012''" "ex_pan \<noteq> []"
  "trim_space ''FROZEN'' = ''FROZEN''" "trim_space ''MC'' = ''MC''"
  using ex_digits
  by (simp_all add: trim_space_digits ascii_digits_isDigits trim_space_solid solid_def ex_pan_def)

text \<open>A table with one card, which is blocked.\<close>

definition ex_other :: cards where
  "ex_other = [ex_card\<lparr>c_ID := ''c2'', c_PAN := ''1'', c_Status := ''BLOCKED''\<rparr>]"

lemma ex_other_ok: "table_ok ex_other"
  by (simp add: table_ok_def ex_other_def ex_card_def in_int64_def int64_min_def int64_max_def)

lemma ex_created: "\<exists>resp u. CreateCard_service postgres_cards ex_q ex_create ex_other = (Inr resp, u)"
proof -
  have "ex_pan \<noteq> ''1''" by (simp add: ex_pan_def)
  then show ?thesis
    by (simp add: CreateCard_service_def new_card_def ex_create_def ex_pan_ok ex_texts Let_def
        postgres_cards_def CreateCard_def ex_q_def sql_insert_def row_by_pan_def row_by_id_def ex_other_def)
qed

lemma ex_get: "GetCardByID ex_q ''c1'' ex_table = (Inr (Some ex_card), ex_table)"
  by (simp add: GetCardByID_def sql_select_by_id_def ex_q_def)

lemma ex_topped_up: "\<exists>resp u. TopUp postgres_cards ex_q ex_q ''c1'' 500 ex_table = (Inr resp, u)"
  by (simp add: TopUp_def postgres_cards_def CreditBalance_def GetCardByID_def sql_select_by_id_def
      sql_update_def rows_affected_def update_where_def row_by_id_def ex_defs in_int64_def
      int64_min_def int64_max_def)

lemma ex_frozen: "merged_card ex_card ex_freeze = Inr (ex_card\<lparr>c_Status := ''FROZEN''\<rparr>)"
  by (simp add: merged_card_def ex_freeze_def ex_texts Let_def ex_card_def)

lemma ex_updated:
  "\<exists>resp u. UpdateCard_service postgres_cards ex_q ex_q ''c1'' ex_freeze ex_table = (Inr resp, u)"
proof -
  note m = ex_frozen
  have "\<exists>e v. UpdateCard ex_q (ex_card\<lparr>c_Status := ''FROZEN''\<rparr>) ex_table = (Inr e, v)"
    by (simp add: UpdateCard_def sql_update_def rows_affected_def update_where_def ex_defs in_int64_def
        int64_min_def int64_max_def)
  then show ?thesis by (auto simp: UpdateCard_service_def postgres_cards_def ex_get m)
qed

lemma ex_deleted: "\<exists>u. DeleteCard_service postgres_cards ex_q ''c1'' ex_table = (Inr (), u)"
  by (simp add: DeleteCard_service_def postgres_cards_def SoftDeleteCard_def sql_update_def
      rows_affected_def update_where_def ex_defs in_int64_def int64_min_def int64_max_def)

lemma ex_merged:
  "merged_card ex_card ex_rename = Inr (ex_card\<lparr>c_Scheme := ''MC''\<rparr>)" "ur_AvailableBalance ex_rename = None"
  by (simp_all add: merged_card_def ex_rename_def ex_freeze_def ex_texts Let_def ex_card_def)

lemma ex_written:
  assumes "AuthorizeAndDebit q (c_PAN ex_card) a ex_table = (x, u)"
  shows "\<exists>e v. UpdateCard ex_q (ex_card\<lparr>c_Scheme := ''MC''\<rparr>) u = (Inr e, v)"
proof -
  have "map c_ID u = [''c1'']" using AuthorizeAndDebit_keys(1) [of q "c_PAN ex_card" a ex_table] assms
    by (simp add: ex_table_def ex_card_def)
  then obtain c where "u = [c]" "c_ID c = ''c1''" by auto
  then show ?thesis
    by (simp add: UpdateCard_def sql_update_def rows_affected_def update_where_def ex_q_def ex_card_def
        in_int64_def int64_min_def int64_max_def)
qed

lemma ex_expired: "\<not> expiryValidYYMM (c_ExpiryDate ex_card) (time_Date 2099 1)"
proof -
  have "c_ExpiryDate ex_card = ''3012''" by (simp add: ex_card_def)
  moreover have "\<not> expiryValidYYMM ''3012'' (time_Date 2099 1)" by code_simp
  ultimately show ?thesis by simp
qed

section \<open>A purchase between the two statements of a reversal\<close>

definition ex_began :: "db_event list" where
  "ex_began = [Begun (RequestOp ex_env ex_reversal), Begun (RequestOp ex_env ex_purchase),
     Statement (RequestOp ex_env ex_reversal) (CreditOp ex_env ex_reversal ex_card 1500)]"

lemma ex_looked_up:
  "advance postgres_cards (RequestOp ex_env ex_reversal) ex_table =
     (Inl (CreditOp ex_env ex_reversal ex_card 1500), ex_table)"
  by (simp add: looked_up_def GetCardByPAN_def sql_select_by_pan_def ex_env_def ex_q_def)

lemma ex_purchased:
  "\<exists>x u. advance postgres_cards (RequestOp ex_env ex_purchase) ex_table = (Inr (Authorized x), u)"
  by (simp add: looked_up_def split: prod.split)

lemma ex_interleaved:
  "\<exists>x y s. db_run postgres_cards ex_table (ex_began @ [Ended (RequestOp ex_env ex_purchase) (Authorized x),
     Ended (CreditOp ex_env ex_reversal ex_card 1500) (Authorized y)]) s"
proof -
  let ?R = "RequestOp ex_env ex_reversal" and ?P = "RequestOp ex_env ex_purchase"
  let ?C = "CreditOp ex_env ex_reversal ex_card 1500"
  obtain x u where x: "advance postgres_cards ?P ex_table = (Inr (Authorized x), u)"
    using ex_purchased by blast
  obtain z v where "CreditBalance (ae_q2 ex_env) (c_ID ex_card) 1500 u = (z, v)" by force
  then obtain y where y: "advance postgres_cards ?C u = (Inr (Authorized y), v)" by simp
  have "db_run postgres_cards ex_table [] \<lparr>db_store = ex_table, db_ops = []\<rparr>" by (rule db_run.start)
  then have "db_run postgres_cards ex_table [Begun ?R] \<lparr>db_store = ex_table, db_ops = [?R]\<rparr>"
    using db_run.step [OF _ db_step.begun [of ?R]] by fastforce
  then have "db_run postgres_cards ex_table [Begun ?R, Begun ?P] \<lparr>db_store = ex_table, db_ops = [?R, ?P]\<rparr>"
    using db_run.step [OF _ db_step.begun [of ?P]] by fastforce
  then have "db_run postgres_cards ex_table ex_began \<lparr>db_store = ex_table, db_ops = [?C, ?P]\<rparr>"
    using db_run.step [OF _ db_step.statement [where xs = "[]" and ys = "[?P]"]] ex_looked_up
    unfolding ex_began_def by fastforce
  then have "db_run postgres_cards ex_table (ex_began @ [Ended ?P (Authorized x)])
      \<lparr>db_store = u, db_ops = [?C]\<rparr>"
    using db_run.step [OF _ db_step.ended [where xs = "[?C]" and ys = "[]"]] x by fastforce
  then have "db_run postgres_cards ex_table
      ((ex_began @ [Ended ?P (Authorized x)]) @ [Ended ?C (Authorized y)]) \<lparr>db_store = v, db_ops = []\<rparr>"
    using db_run.step [OF _ db_step.ended [where xs = "[]" and ys = "[]"]] y by fastforce
  then show ?thesis by auto
qed

section \<open>One call through the network\<close>

definition ex_raw :: "nat \<Rightarrow> byte list" where "ex_raw h = [0]"

definition ex_wire :: "net_event list" where
  "ex_wire = [Dialled, AtSwitch (Called 0), AtSwitch (Sent 0), AtServer (Admitted ex_job),
     AtServer (Answered ex_job ex_resp_hex ex_response),
     AtServer (Replied ex_job ex_resp_hex (frame (tpdu_header 1 @ [1]))),
     AtSwitch (Packet (tpdu_header 1 @ [1])), AtSwitch (Offered 0), AtSwitch (Responded 0 [1])]"

lemma net_go:
  "net_run lib ops cap raw st0 evs n \<Longrightarrow> net_step lib ops cap raw ev n n' \<Longrightarrow> evs' = evs @ [ev] \<Longrightarrow>
   net_run lib ops cap raw st0 evs' n'"
  by (simp add: net_run.step)

text \<open>The bytes of connection 0 when no other connection carries any.\<close>

definition ex_stream :: "byte list \<Rightarrow> nat \<Rightarrow> byte list" where
  "ex_stream s k = (if k = 0 then s else [])"

lemma ex_stream_simps [simp]:
  "ex_stream s 0 = s" "(ex_stream s)(0 := s') = ex_stream s'"
  by (auto simp: ex_stream_def)

lemma ex_stream_nil: "(\<lambda>_. []) = ex_stream []"
  by (auto simp: ex_stream_def)

lemma ex_job_conn: "j_conn ex_job = 0"
  by (simp add: ex_job_def)

lemma ex_network:
  "\<exists>n. net_run ex_lib postgres_cards 1 ex_raw \<lparr>is_store = ex_table, is_audit = []\<rparr> ex_wire n \<and>
     sw_calls (nw_switch n) = 1"
proof -
  let ?st0 = "\<lparr>is_store = ex_table, is_audit = []\<rparr>"
  let ?run = "net_run ex_lib postgres_cards 1 ex_raw ?st0"
  let ?sw1 = "begin_call switch_init" and ?pkt = "frame (tpdu_header 1 @ [1])"
  let ?sw2 = "?sw1\<lparr>sw_live := [0 \<mapsto> (True, 1)]\<rparr>"
  let ?sw3 = "?sw2\<lparr>sw_routing := [(0, [1])]\<rparr>" and ?sw4 = "?sw2\<lparr>sw_chan := [0 \<mapsto> [1]]\<rparr>"
  let ?sw5 = "?sw1\<lparr>sw_live := Map.empty, sw_pending := Map.empty\<rparr>"
  have m1: "mux_step (Called 0) switch_init ?sw1"
    using mux_step.call [of switch_init] by (simp add: switch_init_def)
  have m2: "mux_step (Sent 0) ?sw1 ?sw2"
    using mux_step.sent [of ?sw1 0 1] by (simp add: begin_call_def switch_init_def)
  have m3: "mux_step (Packet (tpdu_header 1 @ [1])) ?sw2 ?sw3"
    using mux_step.packet [of "tpdu_header 1 @ [1]" ?sw2]
    by (simp add: route_def begin_call_def switch_init_def)
  have m4: "mux_step (Offered 0) ?sw3 ?sw4"
    using mux_step.offered [of ?sw3 "[]" 0 "[1]" "[]"]
    by (simp add: offer_def begin_call_def switch_init_def)
  have m5: "mux_step (Responded 0 [1]) ?sw4 ?sw5"
    using mux_step.responded [of ?sw4 0 1 "[1]"] by (simp add: finish_def begin_call_def switch_init_def)
  obtain st' where h: "HandleHex ex_lib (Some postgres_cards) ex_env (j_req ex_job) ?st0 =
      (Inr (ex_resp_hex, ex_response), st')" using ex_handled by (auto simp: ex_job_def)
  let ?sv0 = "\<lparr>sv_pool = [], sv_issuer = ?st0\<rparr>" and ?sv1 = "\<lparr>sv_pool = [Fresh ex_job], sv_issuer = ?st0\<rparr>"
  let ?sv2 = "\<lparr>sv_pool = [Handled ex_job ex_resp_hex ex_response], sv_issuer = st'\<rparr>"
  let ?sv3 = "\<lparr>sv_pool = [], sv_issuer = st'\<rparr>"
  have w: "write_answer None ex_job ex_resp_hex = Inr ?pkt"
    using writeTPDUFrame_frame [of "[1]" "tpdu_header 1", folded ex_resp_hex_def]
    by (simp add: write_answer_def ex_job_def)
  have v1: "server_step ex_lib postgres_cards 1 (Admitted ex_job) ?sv0 ?sv1"
    using server_step.admit [of ?sv0 1 ex_lib postgres_cards ex_job] by simp
  have v2: "server_step ex_lib postgres_cards 1 (Answered ex_job ex_resp_hex ex_response) ?sv1 ?sv2"
    using server_step.handle [where xs = "[]" and ys = "[]" and j = ex_job and s = ?sv1] h by simp
  have v3: "server_step ex_lib postgres_cards 1 (Replied ex_job ex_resp_hex ?pkt) ?sv2 ?sv3"
    using server_step.write_ok [where xs = "[]" and ys = "[]" and s = ?sv2 and resp = ex_response
        and lib = ex_lib and ops = postgres_cards and cap = 1, OF _ w] by simp
  have rd: "readTPDUFrame \<lparr>in_bytes = request_packet [0] 1, in_end = EOF\<rparr> =
      (Inr (tpdu_header 1, ex_req_hex), \<lparr>in_bytes = [], in_end = EOF\<rparr>)"
    unfolding ex_req_hex_def using request_on_the_wire [of "[0]" 1 "[]" EOF] by simp
  have rp: "readTPDUPacket \<lparr>in_bytes = ?pkt, in_end = EOF\<rparr> =
      (Inr (tpdu_header 1 @ [1]), \<lparr>in_bytes = [], in_end = EOF\<rparr>)"
    using readTPDUPacket_frame [of "tpdu_header 1 @ [1]" "[]" EOF] by simp
  let ?N = "\<lambda>sw sv out bk. \<lparr>nw_switch = sw, nw_server = sv, nw_dialled = 1, nw_broken = (\<lambda>_. False),
      nw_out = ex_stream out, nw_back = ex_stream bk\<rparr>"
  let ?step = "net_step ex_lib postgres_cards 1 ex_raw"
  note go = net_step.intros [where lib = ex_lib and ops = postgres_cards and cap = 1 and raw = ex_raw]
  have u: "usable (?N sw sv out bk) 0" for sw sv out bk by (simp add: usable_def)
  have u': "usable (?N sw sv out bk) (j_conn ex_job)" for sw sv out bk by (simp add: usable_def ex_job_conn)
  have n0: "?step Dialled (net_init ?st0) (?N switch_init ?sv0 [] [])"
    using go(1) [of "net_init ?st0"] by (simp add: net_init_def ex_stream_nil)
  have n1: "?step (AtSwitch (Called 0)) (?N switch_init ?sv0 [] []) (?N ?sw1 ?sv0 [] [])"
    using go(2) [where n = "?N switch_init ?sv0 [] []" and sw = ?sw1 and ev = "Called 0"] m1 by simp
  have n2: "?step (AtSwitch (Sent 0)) (?N ?sw1 ?sv0 [] []) (?N ?sw2 ?sv0 (request_packet [0] 1) [])"
    using go(3) [where n = "?N ?sw1 ?sv0 [] []" and sw = ?sw2 and h = 0 and b = False and c = 1, OF _ _ u] m2
    by (simp add: ex_raw_def begin_call_def switch_init_def)
  have n3: "?step (AtServer (Admitted ex_job)) (?N ?sw2 ?sv0 (request_packet [0] 1) []) (?N ?sw2 ?sv1 [] [])"
    using go(5) [where n = "?N ?sw2 ?sv0 (request_packet [0] 1) []" and sv = ?sv1 and
        ev = "Admitted ex_job" and k = 0] rd v1 by (simp add: ex_job_def)
  have n4: "?step (AtServer (Answered ex_job ex_resp_hex ex_response))
      (?N ?sw2 ?sv1 [] []) (?N ?sw2 ?sv2 [] [])"
    using go(6) [where n = "?N ?sw2 ?sv1 [] []" and sv = ?sv2 and
        ev = "Answered ex_job ex_resp_hex ex_response"] v2 by simp
  have n5: "?step (AtServer (Replied ex_job ex_resp_hex ?pkt)) (?N ?sw2 ?sv2 [] []) (?N ?sw2 ?sv3 [] ?pkt)"
    using go(7) [where n = "?N ?sw2 ?sv2 [] []" and sv = ?sv3 and j = ex_job and hexResp = ex_resp_hex and
        pkt = ?pkt, OF _ u'] v3 by (simp add: ex_job_conn)
  have n6: "?step (AtSwitch (Packet (tpdu_header 1 @ [1]))) (?N ?sw2 ?sv3 [] ?pkt) (?N ?sw3 ?sv3 [] [])"
    using go(9) [where n = "?N ?sw2 ?sv3 [] ?pkt" and sw = ?sw3 and p = "tpdu_header 1 @ [1]" and k = 0] rp m3
    by simp
  have n7: "?step (AtSwitch (Offered 0)) (?N ?sw3 ?sv3 [] []) (?N ?sw4 ?sv3 [] [])"
    using go(2) [where n = "?N ?sw3 ?sv3 [] []" and sw = ?sw4 and ev = "Offered 0"] m4 by simp
  have n8: "?step (AtSwitch (Responded 0 [1])) (?N ?sw4 ?sv3 [] []) (?N ?sw5 ?sv3 [] [])"
    using go(2) [where n = "?N ?sw4 ?sv3 [] []" and sw = ?sw5 and ev = "Responded 0 [1]"] m5 by simp
  note runs = net_go [OF net_go [OF net_go [OF net_go [OF net_go [OF net_go [OF net_go [OF net_go [OF net_go [OF
    net_run.start n0 refl] n1 refl] n2 refl] n3 refl] n4 refl] n5 refl] n6 refl] n7 refl] n8 refl]
  have "sw_calls ?sw5 = 1" by (simp add: begin_call_def switch_init_def)
  with runs show ?thesis unfolding ex_wire_def
    by (intro exI [of _ "?N ?sw5 ?sv3 [] []"]) simp
qed

end
