(* ===== verification/Limiter.thy ===== *)
theory Limiter
  imports Switch
begin

text \<open>
  internal/acquirer/middleware.go: the limit on requests in flight with a bounded queue of
  waiters. The configuration is a function of the environment variables. The middleware is a
  step relation over the two atomic counters and the requests inside it, one step per atomic
  operation, so the compare-and-swap loop of \<open>tryAcquire\<close> interleaves as it does in Go.
\<close>

section \<open>Configuration\<close>

definition envInt :: "environ \<Rightarrow> string \<Rightarrow> int \<Rightarrow> int" where
  "envInt getenv key d = positive_or d (getenv key)"

definition envDurationMS :: "environ \<Rightarrow> string \<Rightarrow> int \<Rightarrow> int64" where
  "envDurationMS getenv key defMS =
     (if getenv key = [] then defMS
      else case atoi (getenv key) of
             Some n \<Rightarrow> if n \<ge> 0 then n else defMS
           | None \<Rightarrow> defMS)"

record limits =
  l_limit :: int
  l_maxQueue :: int
  l_queueWaitTimeout :: int64

definition NewConcurrencyLimiter :: "environ \<Rightarrow> limits" where
  "NewConcurrencyLimiter getenv =
     (let lim = envInt getenv ''CONCURRENT_LIMIT'' 200;
          maxQueue = envInt getenv ''MAX_QUEUE'' 500;
          queueWaitTimeout = wrap64 (envDurationMS getenv ''QUEUE_WAIT_TIMEOUT_MS'' 50 * 1000000)
      in \<lparr>l_limit = (if lim < 1 then 1 else lim),
          l_maxQueue = (if maxQueue < 0 then 0 else maxQueue),
          l_queueWaitTimeout = (if queueWaitTimeout < 0 then 0 else queueWaitTimeout)\<rparr>)"

text \<open>No setting turns the queue off: the size is positive whatever the environment says.\<close>

lemma limits_positive:
  "1 \<le> l_limit (NewConcurrencyLimiter getenv)"
  "1 \<le> l_maxQueue (NewConcurrencyLimiter getenv)"
  "0 \<le> l_queueWaitTimeout (NewConcurrencyLimiter getenv)"
  using positive_or_positive [of 200 "getenv ''CONCURRENT_LIMIT''"]
    positive_or_positive [of 500 "getenv ''MAX_QUEUE''"]
  by (simp_all add: NewConcurrencyLimiter_def envInt_def Let_def)

section \<open>The middleware\<close>

text \<open>
  Where a request is. The flag says whether it came through the queue: \<open>Load\<close> and \<open>Cas\<close> are the
  two atomic operations of \<open>tryAcquire\<close>, \<open>AskQueue\<close> and \<open>QueueFull\<close> the increment of \<open>queued\<close> and
  the way back, \<open>Choose\<close> the two \<open>select\<close>s of the polling loop (a request that sleeps is at
  \<open>Load True\<close>), \<open>Running\<close> the handler, and \<open>Dequeue\<close> the deferred decrement of \<open>queued\<close>.
\<close>

datatype phase =
    Load bool | Cas bool int | AskQueue | QueueFull | Choose | Running bool | Dequeue

record limiter =
  lm_inflight :: int
  lm_queued :: int
  lm_rejected :: u64
  lm_requests :: "phase list"

definition limiter_init :: limiter where
  "limiter_init = \<lparr>lm_inflight = 0, lm_queued = 0, lm_rejected = 0, lm_requests = []\<rparr>"

datatype limiter_event =
    Arrive | LoadOp | CasOp | Enqueue | RejectDisabled | RejectFull | RejectCancelled
  | RejectTimeout | Poll | HandlerDone | LeaveQueue

inductive limiter_step :: "limits \<Rightarrow> limiter_event \<Rightarrow> limiter \<Rightarrow> limiter \<Rightarrow> bool" for cfg where
  arrive: "limiter_step cfg Arrive s (s\<lparr>lm_requests := lm_requests s @ [Load False]\<rparr>)"
| load: "lm_requests s = xs @ Load slow # ys \<Longrightarrow> lm_inflight s < l_limit cfg \<Longrightarrow>
    limiter_step cfg LoadOp s (s\<lparr>lm_requests := xs @ Cas slow (lm_inflight s) # ys\<rparr>)"
| load_fast_full: "lm_requests s = xs @ Load False # ys \<Longrightarrow> \<not> lm_inflight s < l_limit cfg \<Longrightarrow>
    l_maxQueue cfg \<noteq> 0 \<Longrightarrow>
    limiter_step cfg LoadOp s (s\<lparr>lm_requests := xs @ AskQueue # ys\<rparr>)"
| load_disabled: "lm_requests s = xs @ Load False # ys \<Longrightarrow> \<not> lm_inflight s < l_limit cfg \<Longrightarrow>
    l_maxQueue cfg = 0 \<Longrightarrow>
    limiter_step cfg RejectDisabled s
      (s\<lparr>lm_requests := xs @ ys, lm_rejected := lm_rejected s + 1\<rparr>)"
| load_slow_full: "lm_requests s = xs @ Load True # ys \<Longrightarrow> \<not> lm_inflight s < l_limit cfg \<Longrightarrow>
    limiter_step cfg LoadOp s (s\<lparr>lm_requests := xs @ Choose # ys\<rparr>)"
| cas_ok: "lm_requests s = xs @ Cas slow current # ys \<Longrightarrow> lm_inflight s = current \<Longrightarrow>
    limiter_step cfg CasOp s
      (s\<lparr>lm_requests := xs @ Running slow # ys, lm_inflight := lm_inflight s + 1\<rparr>)"
| cas_lost: "lm_requests s = xs @ Cas slow current # ys \<Longrightarrow> lm_inflight s \<noteq> current \<Longrightarrow>
    limiter_step cfg CasOp s (s\<lparr>lm_requests := xs @ Load slow # ys\<rparr>)"
| enqueue: "lm_requests s = xs @ AskQueue # ys \<Longrightarrow>
    limiter_step cfg Enqueue s
      (s\<lparr>lm_queued := lm_queued s + 1,
        lm_requests := xs @ (if lm_queued s + 1 > l_maxQueue cfg then QueueFull else Load True) # ys\<rparr>)"
| queue_full: "lm_requests s = xs @ QueueFull # ys \<Longrightarrow>
    limiter_step cfg RejectFull s
      (s\<lparr>lm_queued := lm_queued s - 1, lm_rejected := lm_rejected s + 1, lm_requests := xs @ ys\<rparr>)"
| cancelled: "lm_requests s = xs @ Choose # ys \<Longrightarrow>
    limiter_step cfg RejectCancelled s
      (s\<lparr>lm_rejected := lm_rejected s + 1, lm_requests := xs @ Dequeue # ys\<rparr>)"
| timed_out: "lm_requests s = xs @ Choose # ys \<Longrightarrow> l_queueWaitTimeout cfg > 0 \<Longrightarrow>
    limiter_step cfg RejectTimeout s
      (s\<lparr>lm_rejected := lm_rejected s + 1, lm_requests := xs @ Dequeue # ys\<rparr>)"
| poll: "lm_requests s = xs @ Choose # ys \<Longrightarrow>
    limiter_step cfg Poll s (s\<lparr>lm_requests := xs @ Load True # ys\<rparr>)"
| done_fast: "lm_requests s = xs @ Running False # ys \<Longrightarrow>
    limiter_step cfg HandlerDone s (s\<lparr>lm_inflight := lm_inflight s - 1, lm_requests := xs @ ys\<rparr>)"
| done_slow: "lm_requests s = xs @ Running True # ys \<Longrightarrow>
    limiter_step cfg HandlerDone s
      (s\<lparr>lm_inflight := lm_inflight s - 1, lm_requests := xs @ Dequeue # ys\<rparr>)"
| dequeue: "lm_requests s = xs @ Dequeue # ys \<Longrightarrow>
    limiter_step cfg LeaveQueue s (s\<lparr>lm_queued := lm_queued s - 1, lm_requests := xs @ ys\<rparr>)"

inductive_cases limiter_stepE: "limiter_step cfg ev s s'"

inductive limiter_run :: "limits \<Rightarrow> limiter_event list \<Rightarrow> limiter \<Rightarrow> bool" for cfg where
  start: "limiter_run cfg [] limiter_init"
| step: "limiter_run cfg evs s \<Longrightarrow> limiter_step cfg ev s s' \<Longrightarrow> limiter_run cfg (evs @ [ev]) s'"

section \<open>Answers and metrics\<close>

text \<open>
  What the middleware answers when it rejects: status, whether it sets \<open>Retry-After\<close>, and the body.
  \<open>s\<close> is the state right after the rejecting step; the waiting time comes from the clock.
\<close>

datatype rejection =
    Overloaded int int
  | QueueFullBody int int
  | WaitTimeout int
  | CancelledBody

definition reject_answer ::
  "limits \<Rightarrow> limiter \<Rightarrow> int \<Rightarrow> limiter_event \<Rightarrow> (nat \<times> bool \<times> rejection) option" where
  "reject_answer cfg s waited ev =
     (case ev of
        RejectDisabled \<Rightarrow> Some (429, True, Overloaded (lm_inflight s) (l_limit cfg))
      | RejectFull \<Rightarrow> Some (429, True, QueueFullBody (lm_queued s) (l_maxQueue cfg))
      | RejectTimeout \<Rightarrow> Some (429, True, WaitTimeout waited)
      | RejectCancelled \<Rightarrow> Some (408, False, CancelledBody)
      | _ \<Rightarrow> None)"

definition Active :: "limiter \<Rightarrow> int" where "Active s = lm_inflight s"
definition Queued_count :: "limiter \<Rightarrow> int" where "Queued_count s = lm_queued s"
definition Limit :: "limits \<Rightarrow> int" where "Limit cfg = l_limit cfg"
definition MaxConcurrent :: "limits \<Rightarrow> int" where "MaxConcurrent cfg = l_limit cfg"
definition MaxQueue :: "limits \<Rightarrow> int" where "MaxQueue cfg = l_maxQueue cfg"
definition RejectedTotal :: "limiter \<Rightarrow> u64" where "RejectedTotal s = lm_rejected s"

text \<open>The counter of rejections counts the steps that answer with one.\<close>

definition rejects :: "limiter_event \<Rightarrow> bool" where
  "rejects ev \<longleftrightarrow> ev \<in> {RejectDisabled, RejectFull, RejectTimeout, RejectCancelled}"

lemma reject_answer_iff: "reject_answer cfg s w ev \<noteq> None \<longleftrightarrow> rejects ev"
  by (cases ev) (simp_all add: reject_answer_def rejects_def)

lemma limiter_rejections: "limiter_run cfg evs s \<Longrightarrow> RejectedTotal s = of_nat (length (filter rejects evs))"
proof (induction rule: limiter_run.induct)
  case start
  show ?case by (simp add: RejectedTotal_def limiter_init_def)
next
  case (step evs s ev t)
  have "lm_rejected t = lm_rejected s + (if rejects ev then 1 else 0)"
    using step.hyps(2) by cases (simp_all add: rejects_def)
  with step.IH show ?case by (simp add: RejectedTotal_def)
qed

section \<open>The counters\<close>

fun is_running :: "phase \<Rightarrow> bool" where
  "is_running (Running _) = True"
| "is_running _ = False"

text \<open>The requests that count as queued, which the running ones among them still do.\<close>

fun counts_queued :: "phase \<Rightarrow> bool" where
  "counts_queued (Load slow) = slow"
| "counts_queued (Cas slow _) = slow"
| "counts_queued QueueFull = True"
| "counts_queued Choose = True"
| "counts_queued (Running slow) = slow"
| "counts_queued Dequeue = True"
| "counts_queued AskQueue = False"

definition waiting :: "phase \<Rightarrow> bool" where
  "waiting p \<longleftrightarrow> p \<in> {Load True, Choose} \<or> (\<exists>n. p = Cas True n)"

text \<open>A value a request read from the counter, if it goes on with it, was below the limit.\<close>

fun read_below :: "int \<Rightarrow> phase \<Rightarrow> bool" where
  "read_below lim (Cas _ n) \<longleftrightarrow> n < lim"
| "read_below lim _ \<longleftrightarrow> True"

definition limiter_inv :: "limits \<Rightarrow> limiter \<Rightarrow> bool" where
  "limiter_inv cfg s \<longleftrightarrow>
     lm_inflight s = int (length (filter is_running (lm_requests s))) \<and>
     lm_queued s = int (length (filter counts_queued (lm_requests s))) \<and>
     lm_inflight s \<le> l_limit cfg \<and>
     lm_queued s \<le> l_maxQueue cfg + int (length (filter (\<lambda>p. p = QueueFull) (lm_requests s))) \<and>
     list_all (read_below (l_limit cfg)) (lm_requests s)"

lemma limiter_step_inv:
  "limiter_step cfg ev s s' \<Longrightarrow> limiter_inv cfg s \<Longrightarrow> limiter_inv cfg s'"
  unfolding limiter_inv_def by (erule limiter_stepE) (simp_all split: if_splits)

lemma limiter_run_inv:
  "limiter_run cfg evs s \<Longrightarrow> 0 \<le> l_limit cfg \<Longrightarrow> 0 \<le> l_maxQueue cfg \<Longrightarrow> limiter_inv cfg s"
  by (induction rule: limiter_run.induct)
    (simp add: limiter_inv_def limiter_init_def, blast intro: limiter_step_inv)

text \<open>
  A run with a limit of 1 and room for one waiter: the second request waits, gets the slot of the
  first, and stays counted as queued while its handler runs.
\<close>

lemma full_run:
  assumes "l_limit cfg = 1" "l_maxQueue cfg = 1"
  shows "limiter_run cfg
    [Arrive, LoadOp, CasOp, Arrive, LoadOp, Enqueue, HandlerDone, LoadOp, CasOp,
     Arrive, LoadOp, Enqueue]
    \<lparr>lm_inflight = 1, lm_queued = 2, lm_rejected = 0, lm_requests = [Running True, QueueFull]\<rparr>"
proof -
  let ?S = "\<lambda>i q r. \<lparr>lm_inflight = i, lm_queued = q, lm_rejected = 0, lm_requests = r\<rparr>"
  note st = limiter_run.step [where cfg = cfg]
  have 1: "limiter_run cfg [Arrive] (?S 0 0 [Load False])"
    using st [OF limiter_run.start limiter_step.arrive] by (simp add: limiter_init_def)
  have 2: "limiter_run cfg [Arrive, LoadOp] (?S 0 0 [Cas False 0])"
    using st [OF 1 limiter_step.load [where xs = "[]" and ys = "[]" and slow = False]] assms by simp
  have 3: "limiter_run cfg [Arrive, LoadOp, CasOp] (?S 1 0 [Running False])"
    using st [OF 2 limiter_step.cas_ok [where xs = "[]" and ys = "[]" and slow = False]] by simp
  have 4: "limiter_run cfg [Arrive, LoadOp, CasOp, Arrive] (?S 1 0 [Running False, Load False])"
    using st [OF 3 limiter_step.arrive] by simp
  have 5: "limiter_run cfg [Arrive, LoadOp, CasOp, Arrive, LoadOp] (?S 1 0 [Running False, AskQueue])"
    using st [OF 4 limiter_step.load_fast_full [where xs = "[Running False]" and ys = "[]"]] assms by simp
  have 6: "limiter_run cfg [Arrive, LoadOp, CasOp, Arrive, LoadOp, Enqueue] (?S 1 1 [Running False, Load True])"
    using st [OF 5 limiter_step.enqueue [where xs = "[Running False]" and ys = "[]"]] assms by simp
  have 7: "limiter_run cfg [Arrive, LoadOp, CasOp, Arrive, LoadOp, Enqueue, HandlerDone] (?S 0 1 [Load True])"
    using st [OF 6 limiter_step.done_fast [where xs = "[]" and ys = "[Load True]"]] by simp
  have 8: "limiter_run cfg [Arrive, LoadOp, CasOp, Arrive, LoadOp, Enqueue, HandlerDone, LoadOp]
      (?S 0 1 [Cas True 0])"
    using st [OF 7 limiter_step.load [where xs = "[]" and ys = "[]" and slow = True]] assms by simp
  have 9: "limiter_run cfg [Arrive, LoadOp, CasOp, Arrive, LoadOp, Enqueue, HandlerDone, LoadOp, CasOp]
      (?S 1 1 [Running True])"
    using st [OF 8 limiter_step.cas_ok [where xs = "[]" and ys = "[]" and slow = True]] by simp
  have 10: "limiter_run cfg [Arrive, LoadOp, CasOp, Arrive, LoadOp, Enqueue, HandlerDone, LoadOp, CasOp,
      Arrive] (?S 1 1 [Running True, Load False])"
    using st [OF 9 limiter_step.arrive] by simp
  have 11: "limiter_run cfg [Arrive, LoadOp, CasOp, Arrive, LoadOp, Enqueue, HandlerDone, LoadOp, CasOp,
      Arrive, LoadOp] (?S 1 1 [Running True, AskQueue])"
    using st [OF 10 limiter_step.load_fast_full [where xs = "[Running True]" and ys = "[]"]] assms by simp
  show ?thesis
    using st [OF 11 limiter_step.enqueue [where xs = "[Running True]" and ys = "[]"]] assms by simp
qed

section \<open>What the limiter guarantees\<close>

text \<open>
  C19. Under every interleaving of the atomic operations, the number of running handlers never
  exceeds the limit and \<open>inflight\<close> is that number; \<open>queued\<close> counts the requests that entered the
  queue and have not left the middleware, and stays within the queue's size but for requests on
  their way to being rejected; and when every request has left, both counters are zero again,
  whichever way each of them left.
\<close>

theorem limiter_accounts:
  assumes "limiter_run cfg evs s" "0 \<le> l_limit cfg" "0 \<le> l_maxQueue cfg"
  shows "int (length (filter is_running (lm_requests s))) = lm_inflight s \<and>
    lm_inflight s \<le> l_limit cfg \<and>
    int (length (filter counts_queued (lm_requests s))) = lm_queued s \<and>
    lm_queued s \<le> l_maxQueue cfg + int (length (filter (\<lambda>p. p = QueueFull) (lm_requests s))) \<and>
    (lm_requests s = [] \<longrightarrow> lm_inflight s = 0 \<and> lm_queued s = 0)"
  using limiter_run_inv [OF assms] by (simp add: limiter_inv_def)

theorem limiter_accounts_witness:
  "\<exists>evs s. limiter_run (NewConcurrencyLimiter (\<lambda>_. [])) evs s \<and> length evs = 1 \<and>
     lm_inflight s \<le> l_limit (NewConcurrencyLimiter (\<lambda>_. []))"
proof -
  let ?cfg = "NewConcurrencyLimiter (\<lambda>_. [])"
  obtain s where run: "limiter_run ?cfg ([] @ [Arrive]) s"
    using limiter_run.step [OF limiter_run.start limiter_step.arrive] by blast
  from limiter_accounts [OF run] limits_positive [of "\<lambda>_. []"]
  have "lm_inflight s \<le> l_limit ?cfg" by simp
  with run show ?thesis by (intro exI [of _ "[Arrive]"] exI [of _ s]) simp
qed

text \<open>
  The counter of the queue includes running requests that once waited, so requests are
  turned away as "queue full" although nobody waits: with a limit of 1 and room for one waiter, a
  run leads to a request being rejected for a full queue while no request is waiting.
\<close>

lemma queue_full_without_waiters:
  assumes "l_limit cfg = 1" "l_maxQueue cfg = 1"
  shows "\<exists>evs s. limiter_run cfg evs s \<and> QueueFull \<in> set (lm_requests s) \<and>
    (\<forall>p \<in> set (lm_requests s). \<not> waiting p)"
  using full_run [OF assms]
  by (intro exI conjI) (assumption | simp add: waiting_def)+

end
