(* ===== verification/Spec_Loader.thy ===== *)
theory Spec_Loader
  imports Go_Strings "HOL-Library.Multiset"
begin

text \<open>
  internal/iso/spec_loader.go: the field specification the codec is built on. Reading the file
  and decoding its JSON are the standard library's: \<open>LoadSpecFromJSON\<close> receives their results,
  the decoded field map as the list of its entries in the order \<open>range\<close> visits them, which Go
  leaves open. The result maps field numbers to what the code hands to moov-io/iso8583.

  The lemmas show which fields the result has and that, with distinct field numbers, the visiting
  order does not matter.
\<close>

section \<open>The JSON and the specification\<close>

record FieldSpec =
  fs_Name :: string
  fs_Description :: string
  fs_Type :: string
  fs_Length :: int
  fs_Format :: string
  fs_Encoding :: string
  fs_Padding :: string
  fs_PadChar :: string

datatype prefixer = ASCII_Fixed | ASCII_LL | ASCII_LLL
datatype encoder = ASCII | Binary

datatype iso_field =
    StringField int string encoder prefixer
  | BitmapField string encoder prefixer

type_synonym message_spec = "int \<rightharpoonup> iso_field"

section \<open>Loading\<close>

text \<open>
  \<open>fmt.Sscanf(s, "%d", &n)\<close>: leading space without a line break, an optional sign, and as many
  digits as follow; when it fails \<open>n\<close> keeps its 0.
\<close>

definition scan_digits :: "string \<Rightarrow> int option" where
  "scan_digits s =
     (let ds = takeWhile is_digit_byte s in if ds = [] then None else Some (int (dec_value ds)))"

definition sscanf_int :: "string \<Rightarrow> int" where
  "sscanf_int s =
     (let t = trim_left s; skipped = take (length s - length t) s in
      if CHR 0x0A \<in> set skipped then 0
      else
        let n = (case t of
                   [] \<Rightarrow> None
                 | c # cs \<Rightarrow> if c = CHR ''-'' then map_option uminus (scan_digits cs)
                             else if c = CHR ''+'' then scan_digits cs
                             else scan_digits t)
        in (case n of Some i \<Rightarrow> if in_int64 i then i else 0 | None \<Rightarrow> 0))"

definition field_prefix :: "string \<Rightarrow> prefixer" where
  "field_prefix format =
     (if format = ''fixed'' then ASCII_Fixed
      else if format = ''llvar'' then ASCII_LL
      else if format = ''lllvar'' then ASCII_LLL
      else ASCII_Fixed)"

definition base_fields :: message_spec where
  "base_fields =
     [0 \<mapsto> StringField 4 ''MTI'' ASCII ASCII_Fixed, 1 \<mapsto> BitmapField ''Bitmap'' Binary ASCII_Fixed]"

definition add_field :: "message_spec \<Rightarrow> string \<times> FieldSpec \<Rightarrow> message_spec" where
  "add_field m kv =
     (let (fieldNumStr, fieldSpec) = kv in
      if fieldNumStr = ''0'' then m
      else let fieldNum = sscanf_int fieldNumStr in
        if fieldNum < 2 then m
        else m(fieldNum \<mapsto> StringField (fs_Length fieldSpec) (fs_Description fieldSpec) ASCII
                      (field_prefix (fs_Format fieldSpec))))"

definition LoadSpecFromJSON ::
  "go_error + 'data \<Rightarrow> ('data \<Rightarrow> go_error + (string \<times> FieldSpec) list) \<Rightarrow> go_error + message_spec" where
  "LoadSpecFromJSON readFile unmarshal =
     (case readFile of
        Inl e \<Rightarrow> Inl (Wrapf ''failed to read spec file'' e)
      | Inr data \<Rightarrow>
          (case unmarshal data of
             Inl e \<Rightarrow> Inl (Wrapf ''failed to parse spec JSON'' e)
           | Inr entries \<Rightarrow> Inr (foldl add_field base_fields entries)))"

text \<open>\<open>InitSpec\<close>: the global \<open>Spec\<close> changes only when the loading succeeded.\<close>

definition InitSpec ::
  "go_error + 'data \<Rightarrow> ('data \<Rightarrow> go_error + (string \<times> FieldSpec) list) \<Rightarrow> message_spec option \<Rightarrow>
   go_error option \<times> message_spec option" where
  "InitSpec readFile unmarshal spec =
     (case LoadSpecFromJSON readFile unmarshal of
        Inl e \<Rightarrow> (Some e, spec)
      | Inr loadedSpec \<Rightarrow> (None, Some loadedSpec))"

section \<open>Lemmas\<close>

text \<open>Fields 0 and 1 are the loader's own whatever the file says.\<close>

lemma foldl_add_field_base: "foldl add_field m entries 0 = m 0 \<and> foldl add_field m entries 1 = m 1"
  by (induction entries arbitrary: m) (auto simp: add_field_def Let_def split: prod.split)

text \<open>A decimal number scans to itself.\<close>

lemma takeWhile_digits: "ascii_digits s \<Longrightarrow> takeWhile is_digit_byte s = s"
  by (simp add: ascii_digits_def list_all_iff takeWhile_eq_all_conv)

lemma sscanf_int_digits:
  assumes "ascii_digits s" "s \<noteq> []" "in_int64 (int (dec_value s))"
  shows "sscanf_int s = int (dec_value s)"
proof -
  obtain c cs where s: "s = c # cs" using assms(2) by (cases s) auto
  have c: "is_digit_byte c" using assms(1) s by simp
  have "\<not> is_space_rune (of_char c)" using digit_solid [OF c] by (rule solid_not_space)
  moreover have "(of_char c :: nat) < 128" using c by (simp add: is_digit_byte_def)
  ultimately have t: "trim_left s = s"
    by (subst trim_left.simps) (simp add: s bytes_of_def)
  have "c \<noteq> CHR ''-''" "c \<noteq> CHR ''+''" using c by (auto simp: is_digit_byte_def)
  moreover have "scan_digits s = Some (int (dec_value s))"
    using assms(1,2) by (simp add: scan_digits_def takeWhile_digits)
  ultimately show ?thesis using assms(3) t unfolding s by (simp add: sscanf_int_def Let_def)
qed

text \<open>
  The number an entry defines, if any; with distinct numbers the result is the same for every
  visiting order.
\<close>

definition defines_field :: "string \<times> FieldSpec \<Rightarrow> int option" where
  "defines_field kv =
     (if fst kv = ''0'' \<or> sscanf_int (fst kv) < 2 then None else Some (sscanf_int (fst kv)))"

definition field_of :: "string \<times> FieldSpec \<Rightarrow> iso_field" where
  "field_of kv = StringField (fs_Length (snd kv)) (fs_Description (snd kv)) ASCII
     (field_prefix (fs_Format (snd kv)))"

lemma add_field_eq:
  "add_field m kv = (case defines_field kv of None \<Rightarrow> m | Some n \<Rightarrow> m(n \<mapsto> field_of kv))"
  by (auto simp: add_field_def defines_field_def field_of_def Let_def split: prod.split)

lemma foldl_add_field_lookup:
  "foldl add_field m entries n =
     (case find (\<lambda>kv. defines_field kv = Some n) (rev entries) of
        Some kv \<Rightarrow> Some (field_of kv) | None \<Rightarrow> m n)"
proof (induction entries rule: rev_induct)
  case (snoc kv entries)
  then show ?case by (auto simp: add_field_eq split: option.splits)
qed simp

definition distinct_fields :: "(string \<times> FieldSpec) list \<Rightarrow> bool" where
  "distinct_fields entries \<longleftrightarrow>
     (\<forall>a \<in> set entries. \<forall>b \<in> set entries.
        defines_field a \<noteq> None \<longrightarrow> defines_field a = defines_field b \<longrightarrow> a = b)"

lemma find_unique:
  assumes "\<And>a b. a \<in> set xs \<Longrightarrow> b \<in> set xs \<Longrightarrow> P a \<Longrightarrow> P b \<Longrightarrow> a = b" "set xs = set ys"
  shows "find P xs = find P ys"
proof (cases "find P xs")
  case None
  then have "find P ys = None" unfolding find_None_iff assms(2) .
  with None show ?thesis by simp
next
  case (Some a)
  then have a: "a \<in> set xs" "P a" unfolding find_Some_iff by auto
  then have "find P ys \<noteq> None" unfolding find_None_iff assms(2) by blast
  then obtain b where b: "find P ys = Some b" by blast
  then have "b \<in> set ys" "P b" unfolding find_Some_iff by auto
  then have "a = b" using a assms by blast
  with b Some show ?thesis by simp
qed

text \<open>
  C38. The specification does not depend on the order in which Go visits the fields of the JSON
  object, as long as no two entries define the same field number; fields 0 and 1 are the
  loader's own whatever the file says.
\<close>

theorem spec_order_irrelevant:
  assumes "distinct_fields entries" "mset entries' = mset entries"
  shows "LoadSpecFromJSON (Inr d) (\<lambda>_. Inr entries') = LoadSpecFromJSON (Inr d) (\<lambda>_. Inr entries) \<and>
    (\<exists>m. LoadSpecFromJSON (Inr d) (\<lambda>_. Inr entries) = Inr m \<and> m 0 = base_fields 0 \<and> m 1 = base_fields 1)"
proof -
  have "foldl add_field base_fields entries' n = foldl add_field base_fields entries n" for n
  proof -
    have s: "set (rev entries') = set (rev entries)" using assms(2) by (metis set_mset_mset set_rev)
    have "find (\<lambda>kv. defines_field kv = Some n) (rev entries') =
          find (\<lambda>kv. defines_field kv = Some n) (rev entries)"
      using assms(1) s by (intro find_unique) (auto simp: distinct_fields_def)
    then show ?thesis by (simp add: foldl_add_field_lookup)
  qed
  then have "foldl add_field base_fields entries' = foldl add_field base_fields entries" by blast
  with foldl_add_field_base [of base_fields entries] show ?thesis by (simp add: LoadSpecFromJSON_def)
qed

definition ex_field :: FieldSpec where
  "ex_field = \<lparr>fs_Name = ''PAN'', fs_Description = ''PAN'', fs_Type = ''n'', fs_Length = 19,
     fs_Format = ''llvar'', fs_Encoding = [], fs_Padding = [], fs_PadChar = []\<rparr>"

theorem spec_order_irrelevant_witness:
  "LoadSpecFromJSON (Inr ()) (\<lambda>_. Inr [(''3'', ex_field), (''2'', ex_field)]) =
   LoadSpecFromJSON (Inr ()) (\<lambda>_. Inr [(''2'', ex_field), (''3'', ex_field)])"
proof -
  have d: "is_digit_byte CHR ''2''" "is_digit_byte CHR ''3''" by (simp_all add: is_digit_byte_def)
  have "dec_value ''2'' = 2" "dec_value ''3'' = 3" by (simp_all add: dec_value_def digit_val_def)
  then have "sscanf_int ''2'' = 2" "sscanf_int ''3'' = 3"
    using sscanf_int_digits [of "''2''"] sscanf_int_digits [of "''3''"] d
    by (simp_all add: in_int64_def int64_min_def int64_max_def)
  then have "distinct_fields [(''2'', ex_field), (''3'', ex_field)]"
    by (simp add: distinct_fields_def defines_field_def)
  then show ?thesis
    using spec_order_irrelevant [of "[(''2'', ex_field), (''3'', ex_field)]"
      "[(''3'', ex_field), (''2'', ex_field)]" "()"] by simp
qed

end
