(* ===== verification/Telemetry.thy ===== *)
theory Telemetry
  imports Prelude "HOL-Library.Signed_Division"
begin

text \<open>
  internal/otel: the set-up of tracing and metrics (\<open>InitOTel\<close>) and the two instruments every
  answered transaction is counted in. The SDK's own calls are arguments: whether a resource, an
  exporter or an instrument could be made. The state is what the package and the SDK hold
  globally: the providers that were set, by service name, and the instruments, which are nil
  until they are made.

  The lemmas show that the two instruments always agree, that recording before or without set-up
  changes nothing, and what a set-up that fails half way leaves behind.
\<close>

section \<open>State\<close>

text \<open>
  A counter is a number per set of attributes; a histogram is kept as the values it was given, in
  milliseconds, per set of attributes (the code leaves the buckets to the SDK).
\<close>

type_synonym attributes = "(string \<times> string) list"

record telemetry =
  tl_tracer :: "string option"
  tl_meter :: "string option"
  tl_counter :: "(attributes \<Rightarrow> int) option"
  tl_duration :: "(attributes \<Rightarrow> int list) option"

definition no_telemetry :: telemetry where
  "no_telemetry = \<lparr>tl_tracer = None, tl_meter = None, tl_counter = None, tl_duration = None\<rparr>"

text \<open>The SDK's answers, in the order \<open>InitOTel\<close> asks.\<close>

record otel_env =
  oe_resource :: "go_error option"
  oe_traceExporter :: "go_error option"
  oe_metricExporter :: "go_error option"
  oe_runtime :: "go_error option"
  oe_counter :: "go_error option"
  oe_histogram :: "go_error option"

section \<open>Set-up and shutdown\<close>

text \<open>An instrument that could not be made is taken to be nil.\<close>

definition initBusinessMetrics :: "otel_env \<Rightarrow> telemetry \<Rightarrow> go_error option \<times> telemetry" where
  "initBusinessMetrics env st =
     (case oe_counter env of
        Some e \<Rightarrow> (Some e, st\<lparr>tl_counter := None\<rparr>)
      | None \<Rightarrow>
          let st = st\<lparr>tl_counter := Some (\<lambda>_. 0)\<rparr> in
          (case oe_histogram env of
             Some e \<Rightarrow> (Some e, st\<lparr>tl_duration := None\<rparr>)
           | None \<Rightarrow> (None, st\<lparr>tl_duration := Some (\<lambda>_. [])\<rparr>)))"

definition InitOTel :: "otel_env \<Rightarrow> string \<Rightarrow> telemetry \<Rightarrow> (go_error + unit) \<times> telemetry" where
  "InitOTel env serviceName st =
     (case oe_resource env of Some e \<Rightarrow> (Inl e, st) | None \<Rightarrow>
     (case oe_traceExporter env of Some e \<Rightarrow> (Inl e, st) | None \<Rightarrow>
      let st = st\<lparr>tl_tracer := Some serviceName\<rparr> in
     (case oe_metricExporter env of Some e \<Rightarrow> (Inl e, st) | None \<Rightarrow>
      let st = st\<lparr>tl_meter := Some serviceName\<rparr> in
     (case oe_runtime env of Some e \<Rightarrow> (Inl e, st) | None \<Rightarrow>
     (case initBusinessMetrics env st of
        (Some e, st) \<Rightarrow> (Inl e, st)
      | (None, st) \<Rightarrow> (Inr (), st))))))"

text \<open>
  The function \<open>InitOTel\<close> answers with: it shuts the tracer provider down, then the meter provider.
  \<open>None\<close> for a provider stands for one that was shut down.
\<close>

definition shutdown :: "go_error option \<Rightarrow> go_error option \<Rightarrow> telemetry \<Rightarrow> go_error option \<times> telemetry" where
  "shutdown tp_err mp_err st =
     (case tp_err of Some e \<Rightarrow> (Some e, st) | None \<Rightarrow>
      let st = st\<lparr>tl_tracer := None\<rparr> in
     (case mp_err of Some e \<Rightarrow> (Some e, st) | None \<Rightarrow> (None, st\<lparr>tl_meter := None\<rparr>)))"

section \<open>Recording\<close>

text \<open>\<open>Duration.Milliseconds\<close> cuts toward zero.\<close>

definition record_attrs :: "attributes \<Rightarrow> int \<Rightarrow> telemetry \<Rightarrow> telemetry" where
  "record_attrs attrs duration st =
     (case (tl_counter st, tl_duration st) of
        (Some n, Some h) \<Rightarrow>
          st\<lparr>tl_counter := Some (n(attrs := n attrs + 1)),
             tl_duration := Some (h(attrs := h attrs @ [duration sdiv 1000000]))\<rparr>
      | _ \<Rightarrow> st)"

definition RecordTransaction :: "string \<Rightarrow> string \<Rightarrow> int \<Rightarrow> telemetry \<Rightarrow> telemetry" where
  "RecordTransaction mti responseCode duration st =
     record_attrs [(''mti'', mti), (''response_code'', responseCode)] duration st"

definition RecordTransactionWithService ::
  "string \<Rightarrow> string \<Rightarrow> string \<Rightarrow> int \<Rightarrow> telemetry \<Rightarrow> telemetry" where
  "RecordTransactionWithService service mti responseCode duration st =
     record_attrs [(''service'', service), (''mti'', mti), (''response_code'', responseCode)] duration st"

section \<open>The instruments agree\<close>

definition agree :: "telemetry \<Rightarrow> bool" where
  "agree st \<longleftrightarrow>
     (case (tl_counter st, tl_duration st) of
        (Some n, Some h) \<Rightarrow> \<forall>a. n a = int (length (h a))
      | _ \<Rightarrow> True)"

lemma agree_record: "agree st \<Longrightarrow> agree (record_attrs attrs d st)"
  by (auto simp: agree_def record_attrs_def split: option.splits)

lemma agree_init:
  assumes "InitOTel env name no_telemetry = (x, st)"
  shows "agree st" and "x = Inr () \<longleftrightarrow> tl_counter st \<noteq> None \<and> tl_duration st \<noteq> None"
  using assms
  by (auto simp: InitOTel_def initBusinessMetrics_def no_telemetry_def agree_def Let_def
      split: option.splits if_splits)

lemma record_without_setup: "tl_counter st = None \<or> tl_duration st = None \<Longrightarrow> record_attrs attrs d st = st"
  by (auto simp: record_attrs_def split: option.split)

text \<open>
  A set-up that fails after the trace exporter was made leaves the tracer provider set, with no
  shutdown function in anybody's hands; and a shutdown whose first half fails skips the second.
\<close>

lemma init_failure_keeps_tracer:
  assumes "InitOTel env name st = (Inl e, st')" "oe_resource env = None" "oe_traceExporter env = None"
  shows "tl_tracer st' = Some name"
  using assms
  by (auto simp: InitOTel_def initBusinessMetrics_def Let_def split: option.splits if_splits)

lemma shutdown_skips_meter: "shutdown (Some e) mp_err st = (Some e, st)"
  by (simp add: shutdown_def)

text \<open>
  The transactions a service records, one after the other: afterwards each count is the number of
  transactions with these attributes, and there is one duration for each.
\<close>

fun record_all :: "string \<Rightarrow> (string \<times> string \<times> int) list \<Rightarrow> telemetry \<Rightarrow> telemetry" where
  "record_all service [] st = st"
| "record_all service ((mti, rc, d) # rest) st =
    record_all service rest (RecordTransactionWithService service mti rc d st)"

lemma record_all_counts:
  assumes "tl_counter st = Some n" "tl_duration st = Some h"
  shows "\<exists>n' h'. tl_counter (record_all service txs st) = Some n' \<and>
    tl_duration (record_all service txs st) = Some h' \<and>
    (\<forall>mti rc. let a = [(''service'', service), (''mti'', mti), (''response_code'', rc)] in
       n' a = n a + int (length (filter (\<lambda>(m, r, _). m = mti \<and> r = rc) txs)) \<and>
       length (h' a) = length (h a) + length (filter (\<lambda>(m, r, _). m = mti \<and> r = rc) txs))"
  using assms
proof (induction service txs st arbitrary: n h rule: record_all.induct)
  case (2 service mti rc d rest st)
  let ?st = "RecordTransactionWithService service mti rc d st"
  let ?a = "[(''service'', service), (''mti'', mti), (''response_code'', rc)]"
  have "tl_counter ?st = Some (n(?a := n ?a + 1))"
    "tl_duration ?st = Some (h(?a := h ?a @ [d sdiv 1000000]))"
    using 2(2,3) by (simp_all add: RecordTransactionWithService_def record_attrs_def)
  from 2(1) [OF this] show ?case by (auto simp: Let_def fun_upd_def)
qed simp

end
