(* ===== verification/Startup.thy ===== *)
theory Startup
  imports Http_Server Limiter Spec_Loader Telemetry
begin

text \<open>
  How the two services start: internal/config/config.go, internal/store/postgres/postgres.go and
  the \<open>main\<close> functions under cmd/. Opening a connection pool is pgx's: whether a URL parses, a
  pool can be created and a ping answers comes from the environment \<open>pg_env\<close>. The state is the
  list of open pools.

  The lemmas show that a constructor that fails leaves no pool open, that \<open>Close\<close> closes all a
  store holds, that waiting for the database ends, and what each service has when it serves.
\<close>

section \<open>Configuration\<close>

record Config =
  DatabaseURL :: string

definition FromEnv :: "environ \<Rightarrow> Config" where
  "FromEnv getenv = \<lparr>DatabaseURL = getenv ''DATABASE_URL''\<rparr>"

definition envIntOrDefault :: "environ \<Rightarrow> string \<Rightarrow> int \<Rightarrow> int" where
  "envIntOrDefault getenv key d = positive_or d (getenv key)"

definition int32 :: "int \<Rightarrow> int" where
  "int32 n = sint (word_of_int n :: u32)"

section \<open>Waiting for the database\<close>

text \<open>
  One round pings; after a failure it gives up past the deadline or sleeps half a second. The
  clock of round \<open>k\<close> is \<open>now k\<close>, in nanoseconds since the wait began.
\<close>

fun wait_loop :: "nat \<Rightarrow> (nat \<Rightarrow> go_error option) \<Rightarrow> (nat \<Rightarrow> int) \<Rightarrow> nat \<Rightarrow> go_error option option" where
  "wait_loop 0 ping now k = None"
| "wait_loop (Suc fuel) ping now k =
    (case ping k of
       None \<Rightarrow> Some None
     | Some e \<Rightarrow>
         if now k > 30 * 1000000000 then Some (Some (Wrapf ''ping postgres'' e))
         else wait_loop fuel ping now (Suc k))"

definition waitForPool :: "(nat \<Rightarrow> go_error option) \<Rightarrow> (nat \<Rightarrow> int) \<Rightarrow> go_error option option" where
  "waitForPool ping now = wait_loop 62 ping now 0"

text \<open>62 rounds are enough: each failed round sleeps for at least 500 ms.\<close>

lemma wait_loop_ends:
  assumes "\<And>k. int k * 500000000 \<le> now k" "62 \<le> k + fuel" "0 < fuel"
  shows "\<exists>r. wait_loop fuel ping now k = Some r"
  using assms(2,3)
proof (induction fuel arbitrary: k)
  case (Suc fuel)
  show ?case
  proof (cases "ping k")
    case (Some e)
    show ?thesis
    proof (cases "now k > 30 * 1000000000")
      case False
      with assms(1) [of k] have "k \<le> 60" by simp
      with Suc.prems have "62 \<le> Suc k + fuel" "0 < fuel" by simp_all
      from Suc.IH [OF this] False Some show ?thesis by simp
    qed (use Some in simp)
  qed simp
qed simp

lemma wait_loop_result:
  "wait_loop fuel ping now k = Some r \<Longrightarrow>
   (case r of None \<Rightarrow> \<exists>k. ping k = None
    | Some x \<Rightarrow> \<exists>k e. ping k = Some e \<and> now k > 30000000000 \<and> x = Wrapf ''ping postgres'' e)"
  by (induction fuel ping now k rule: wait_loop.induct) (fastforce split: option.splits if_splits)+

text \<open>
  C40. Waiting for the database ends on every clock that advances by the half second each failed
  round sleeps: it returns the first successful ping, or the error of a ping past the deadline.
\<close>

theorem database_wait_ends:
  assumes "\<forall>k. int k * 500000000 \<le> now k"
  shows "\<exists>r. waitForPool ping now = Some r \<and>
    (case r of None \<Rightarrow> \<exists>k. ping k = None
     | Some x \<Rightarrow> \<exists>k e. ping k = Some e \<and> now k > 30000000000 \<and> x = Wrapf ''ping postgres'' e)"
proof -
  obtain r where r: "wait_loop 62 ping now 0 = Some r" using wait_loop_ends [of now 0 62 ping] assms by auto
  from wait_loop_result [OF this] show ?thesis by (auto simp: waitForPool_def r)
qed

theorem database_wait_ends_witness:
  "\<exists>r. waitForPool (\<lambda>_. Some (Errorf ''refused'')) (\<lambda>k. int k * 500000000) = Some (Some r)"
  using database_wait_ends [of "\<lambda>k. int k * 500000000" "\<lambda>_. Some (Errorf ''refused'')"]
  by (auto split: option.splits)

section \<open>Pools and stores\<close>

record pool_config =
  po_url :: string
  po_max :: int
  po_min :: int
  po_sync_off :: bool

record pg_env =
  pe_getenv :: environ
  pe_parse :: "string \<Rightarrow> go_error option"
  pe_create :: "nat \<Rightarrow> go_error option"
  pe_ping :: "nat \<Rightarrow> nat \<Rightarrow> go_error option"
  pe_clock :: "nat \<Rightarrow> nat \<Rightarrow> int"

record pools =
  pl_next :: nat
  pl_open :: "(nat \<times> pool_config) list"

text \<open>A store: its pools by number, and the pool of each repository (none for a nil one).\<close>

record PostgresStore =
  ps_pool :: nat
  ps_auditPool :: nat
  ps_extraPool :: "nat option"
  ps_cards :: nat
  ps_acquirerTransactions :: nat
  ps_issuerTransactions :: "nat option"

text \<open>
  The answer of \<open>waitForPool\<close> on a pool: its pings and the clock of each round come from the
  environment. (A clock that stands still for 62 rounds of half a second does not exist; the
  value for it is arbitrary.)
\<close>

definition pool_wait :: "pg_env \<Rightarrow> nat \<Rightarrow> go_error option" where
  "pool_wait env i =
     (case waitForPool (pe_ping env i) (pe_clock env i) of
        Some r \<Rightarrow> r
      | None \<Rightarrow> Some (Errorf ''ping postgres''))"

definition open_pool :: "pg_env \<Rightarrow> pool_config \<Rightarrow> pools \<Rightarrow> (go_error + nat) \<times> pools" where
  "open_pool env cfg p =
     (case pe_create env (pl_next p) of
        Some e \<Rightarrow> (Inl e, p\<lparr>pl_next := pl_next p + 1\<rparr>)
      | None \<Rightarrow> (Inr (pl_next p),
                 p\<lparr>pl_next := pl_next p + 1, pl_open := pl_open p @ [(pl_next p, cfg)]\<rparr>))"

definition close_pool :: "nat \<Rightarrow> pools \<Rightarrow> pools" where
  "close_pool i p = p\<lparr>pl_open := filter (\<lambda>(j, _). j \<noteq> i) (pl_open p)\<rparr>"

definition pool_cfg :: "environ \<Rightarrow> string \<Rightarrow> string \<Rightarrow> int \<Rightarrow> string \<Rightarrow> int \<Rightarrow> bool \<Rightarrow> pool_config" where
  "pool_cfg getenv url kmax dmax kmin dmin off =
     \<lparr>po_url = url, po_max = int32 (envIntOrDefault getenv kmax dmax),
      po_min = int32 (envIntOrDefault getenv kmin dmin), po_sync_off = off\<rparr>"

definition New :: "pg_env \<Rightarrow> string \<Rightarrow> pools \<Rightarrow> (go_error + PostgresStore) \<times> pools" where
  "New env databaseURL p0 =
     (if databaseURL = [] then (Inl (Errorf ''databaseURL is empty''), p0)
      else case pe_parse env databaseURL of
        Some e \<Rightarrow> (Inl (Wrapf ''parse pg config'' e), p0)
      | None \<Rightarrow>
     (case open_pool env (pool_cfg (pe_getenv env) databaseURL ''DB_POOL_MAX'' 120 ''DB_POOL_MIN'' 20
             (pe_getenv env ''DB_SYNC_COMMIT'' = ''off'')) p0 of
        (Inl e, p1) \<Rightarrow> (Inl (Wrapf ''create pgx pool'' e), p1)
      | (Inr pool, p1) \<Rightarrow>
     (case pool_wait env pool of
        Some e \<Rightarrow> (Inl e, close_pool pool p1)
      | None \<Rightarrow>
     (case pe_parse env databaseURL of
        Some e \<Rightarrow> (Inl (Wrapf ''parse audit pg config'' e), close_pool pool p1)
      | None \<Rightarrow>
     (case open_pool env (pool_cfg (pe_getenv env) databaseURL ''DB_AUDIT_POOL_MAX'' 30
             ''DB_AUDIT_POOL_MIN'' 5 True) p1 of
        (Inl e, p2) \<Rightarrow> (Inl (Wrapf ''create audit pgx pool'' e), close_pool pool p2)
      | (Inr auditPool, p2) \<Rightarrow>
          (Inr \<lparr>ps_pool = pool, ps_auditPool = auditPool, ps_extraPool = None, ps_cards = pool,
                ps_acquirerTransactions = auditPool, ps_issuerTransactions = Some auditPool\<rparr>,
           p2))))))"

definition NewAcquirerStore ::
  "pg_env \<Rightarrow> string \<Rightarrow> string \<Rightarrow> pools \<Rightarrow> (go_error + PostgresStore) \<times> pools" where
  "NewAcquirerStore env acquirerURL issuerURL p0 =
     (if acquirerURL = [] then (Inl (Errorf ''acquirerURL is empty''), p0)
      else if issuerURL = [] then (Inl (Errorf ''issuerURL is empty''), p0)
      else case pe_parse env acquirerURL of
        Some e \<Rightarrow> (Inl (Wrapf ''parse acquirer pg config'' e), p0)
      | None \<Rightarrow>
     (case open_pool env (pool_cfg (pe_getenv env) acquirerURL ''DB_POOL_MAX'' 10 ''DB_POOL_MIN'' 2
             False) p0 of
        (Inl e, p1) \<Rightarrow> (Inl (Wrapf ''create acquirer pool'' e), p1)
      | (Inr acqPool, p1) \<Rightarrow>
     (case pool_wait env acqPool of
        Some e \<Rightarrow> (Inl e, close_pool acqPool p1)
      | None \<Rightarrow>
     (case pe_parse env acquirerURL of
        Some e \<Rightarrow> (Inl (Wrapf ''parse acquirer audit pg config'' e), close_pool acqPool p1)
      | None \<Rightarrow>
     (case open_pool env (pool_cfg (pe_getenv env) acquirerURL ''DB_AUDIT_POOL_MAX'' 10
             ''DB_AUDIT_POOL_MIN'' 2 True) p1 of
        (Inl e, p2) \<Rightarrow> (Inl (Wrapf ''create acquirer audit pool'' e), close_pool acqPool p2)
      | (Inr auditPool, p2) \<Rightarrow>
     (case pe_parse env issuerURL of
        Some e \<Rightarrow> (Inl (Wrapf ''parse issuer pg config'' e),
                   close_pool auditPool (close_pool acqPool p2))
      | None \<Rightarrow>
     (case open_pool env (pool_cfg (pe_getenv env) issuerURL ''ISSUER_DB_POOL_MAX'' 5
             ''ISSUER_DB_POOL_MIN'' 1 False) p2 of
        (Inl e, p3) \<Rightarrow> (Inl (Wrapf ''create issuer pool'' e),
                        close_pool auditPool (close_pool acqPool p3))
      | (Inr issuerPool, p3) \<Rightarrow>
     (case pool_wait env issuerPool of
        Some e \<Rightarrow> (Inl e, close_pool issuerPool (close_pool auditPool (close_pool acqPool p3)))
      | None \<Rightarrow>
          (Inr \<lparr>ps_pool = acqPool, ps_auditPool = auditPool, ps_extraPool = Some issuerPool,
                ps_cards = issuerPool, ps_acquirerTransactions = auditPool,
                ps_issuerTransactions = None\<rparr>,
           p3)))))))))"

definition Close :: "PostgresStore \<Rightarrow> pools \<Rightarrow> pools" where
  "Close st p =
     close_pool (ps_pool st) (close_pool (ps_auditPool st)
       (case ps_extraPool st of Some i \<Rightarrow> close_pool i p | None \<Rightarrow> p))"

section \<open>No pool is lost\<close>

text \<open>Numbers of open pools are below the next one, so a new pool is none of the open ones.\<close>

definition pools_ok :: "pools \<Rightarrow> bool" where
  "pools_ok p \<longleftrightarrow> (\<forall>(i, c) \<in> set (pl_open p). i < pl_next p)"

lemma open_pool_cases:
  assumes "open_pool env cfg p = (x, p')"
  obtains e where "x = Inl e" "pl_open p' = pl_open p" "pl_next p' = Suc (pl_next p)"
    | "x = Inr (pl_next p)" "pl_open p' = pl_open p @ [(pl_next p, cfg)]" "pl_next p' = Suc (pl_next p)"
  using assms by (auto simp: open_pool_def split: option.splits)

lemma close_pool_simps [simp]:
  "pl_open (close_pool i p) = filter (\<lambda>(j, _). j \<noteq> i) (pl_open p)" "pl_next (close_pool i p) = pl_next p"
  by (simp_all add: close_pool_def)

lemma filter_old:
  assumes "pools_ok p" "pl_next p \<le> i"
  shows "filter (\<lambda>(j, _). j \<noteq> i) (pl_open p) = pl_open p"
  using assms by (auto simp: pools_ok_def filter_id_conv)

text \<open>What a successful constructor leaves behind, and what \<open>Close\<close> makes of it.\<close>

definition opened :: "pools \<Rightarrow> (nat \<times> pool_config) list \<Rightarrow> PostgresStore \<Rightarrow> pools \<Rightarrow> bool" where
  "opened p0 ps st p \<longleftrightarrow> pl_open p = pl_open p0 @ ps \<and> pl_open (Close st p) = pl_open p0"

lemma New_pools:
  assumes "pools_ok p0" "New env url p0 = (x, p)"
  shows "case x of
      Inl e \<Rightarrow> pl_open p = pl_open p0
    | Inr st \<Rightarrow> (\<exists>a b. opened p0 [(ps_pool st, a), (ps_auditPool st, b)] st p) \<and>
        ps_issuerTransactions st = Some (ps_auditPool st) \<and> ps_cards st = ps_pool st"
proof -
  let ?n = "pl_next p0"
  note old = filter_old [OF assms(1), of ?n] filter_old [OF assms(1), of "Suc ?n"]
  note new = assms(2) [unfolded New_def]
  show ?thesis
  proof (cases "url = [] \<or> pe_parse env url \<noteq> None")
    case True
    with new show ?thesis by (auto split: if_splits)
  next
    case False
    then have url: "url \<noteq> []" "pe_parse env url = None" by auto
    show ?thesis
    proof (cases "pe_create env ?n \<noteq> None \<or> pool_wait env ?n \<noteq> None")
      case True
      with new url old show ?thesis by (auto simp: open_pool_def split: option.splits)
    next
      case False
      then have one: "pe_create env ?n = None" "pool_wait env ?n = None" by auto
      show ?thesis
      proof (cases "pe_create env (Suc ?n)")
        case (Some e)
        with new url one old show ?thesis by (auto simp: open_pool_def)
      next
        case None
        with new url one old show ?thesis by (auto simp: open_pool_def opened_def Close_def)
      qed
    qed
  qed
qed

lemma NewAcquirerStore_pools:
  assumes "pools_ok p0" "NewAcquirerStore env url issuer p0 = (x, p)"
  shows "case x of
      Inl e \<Rightarrow> pl_open p = pl_open p0
    | Inr st \<Rightarrow> (\<exists>a b c. opened p0 [(ps_pool st, a), (ps_auditPool st, b), (ps_cards st, c)] st p \<and>
          po_url a = url \<and> po_url b = url \<and> po_url c = issuer) \<and>
        ps_acquirerTransactions st = ps_auditPool st \<and> ps_issuerTransactions st = None"
proof -
  let ?n = "pl_next p0"
  note old = filter_old [OF assms(1), of ?n] filter_old [OF assms(1), of "Suc ?n"]
    filter_old [OF assms(1), of "Suc (Suc ?n)"]
  note new = assms(2) [unfolded NewAcquirerStore_def]
  show ?thesis
  proof (cases "url = [] \<or> issuer = [] \<or> pe_parse env url \<noteq> None")
    case True
    with new show ?thesis by (auto split: if_splits)
  next
    case False
    then have url: "url \<noteq> []" "issuer \<noteq> []" "pe_parse env url = None" by auto
    show ?thesis
    proof (cases "pe_create env ?n \<noteq> None \<or> pool_wait env ?n \<noteq> None")
      case True
      with new url old show ?thesis by (auto simp: open_pool_def split: option.splits)
    next
      case False
      then have one: "pe_create env ?n = None" "pool_wait env ?n = None" by auto
      show ?thesis
      proof (cases "pe_create env (Suc ?n) \<noteq> None \<or> pe_parse env issuer \<noteq> None")
        case True
        with new url one old show ?thesis by (auto simp: open_pool_def split: option.splits)
      next
        case False
        then have two: "pe_create env (Suc ?n) = None" "pe_parse env issuer = None" by auto
        show ?thesis
        proof (cases "pe_create env (Suc (Suc ?n)) \<noteq> None \<or> pool_wait env (Suc (Suc ?n)) \<noteq> None")
          case True
          with new url one two old show ?thesis by (auto simp: open_pool_def split: option.splits)
        next
          case False
          with new url one two old show ?thesis
            by (auto simp: open_pool_def opened_def Close_def pool_cfg_def)
        qed
      qed
    qed
  qed
qed

section \<open>The main functions\<close>

text \<open>
  What \<open>main\<close> decides before it serves: it stops with a message (\<open>log.Fatal\<close>) or serves with a store,
  a migration directory and its addresses. \<open>migrate\<close> is the result of \<open>MigrateUp\<close> for a directory.
\<close>

datatype 'a boot = Fatal string | Serve 'a

record acquirer_boot =
  ab_store :: PostgresStore
  ab_migrations :: string
  ab_addr :: string
  ab_switch :: switch_config
  ab_connections :: "nat option"
  ab_readHeaderTimeout :: int64
  ab_readTimeout :: int64
  ab_writeTimeout :: int64
  ab_idleTimeout :: int64

text \<open>
  The rest of what a \<open>main\<close> meets: the SDK, the specification file, the migrations of a directory,
  the switch's pool and clock while \<open>Start\<close> waits, and the listener.
\<close>

record main_env =
  me_otel :: otel_env
  me_spec :: "go_error option"
  me_migrate :: "string \<Rightarrow> go_error option"
  me_pool :: "nat \<Rightarrow> conn_pool"
  me_clock :: "nat \<Rightarrow> int"
  me_listen :: "go_error option"

text \<open>A telemetry set-up that is asked for and fails is a warning only.\<close>

definition main_otel :: "main_env \<Rightarrow> environ \<Rightarrow> string \<Rightarrow> telemetry \<Rightarrow> telemetry" where
  "main_otel me getenv service tm =
     (if getenv ''OTEL_EXPORTER_OTLP_ENDPOINT'' \<noteq> [] then snd (InitOTel (me_otel me) service tm) else tm)"

definition with_default :: "string \<Rightarrow> string \<Rightarrow> string" where
  "with_default d v = (if v = [] then d else v)"

definition acquirer_main ::
  "main_env \<Rightarrow> pg_env \<Rightarrow> pools \<Rightarrow> telemetry \<Rightarrow> acquirer_boot boot \<times> pools \<times> telemetry" where
  "acquirer_main me env p0 tm =
     (let getenv = pe_getenv env; tm = main_otel me getenv ''acquirer'' tm in
      case me_spec me of
        Some e \<Rightarrow> (Fatal (''failed to load ISO spec: '' @ error_text e), p0, tm)
      | None \<Rightarrow>
          let cfg = FromEnv getenv;
              issuerDBURL = getenv ''ISSUER_DATABASE_URL'';
              addr = '':'' @ with_default ''8081'' (getenv ''ACQUIRER_PORT'');
              serve = (\<lambda>st dir.
                case me_listen me of
                  Some e \<Rightarrow> Fatal (''acquirer: failed to listen: '' @ error_text e)
                | None \<Rightarrow> Serve
                    \<lparr>ab_store = st, ab_migrations = dir, ab_addr = addr,
                     ab_switch = NewAcquirerSwitch getenv
                       (with_default ''localhost:5001'' (getenv ''ISSUER_ADDR'')),
                     ab_connections = Start (me_pool me) (me_clock me),
                     ab_readHeaderTimeout = 5 * 1000000000, ab_readTimeout = 10 * 1000000000,
                     ab_writeTimeout =
                       wrap64 (wrap64 (positive_or 2 (getenv ''ACQUIRER_REQUEST_TIMEOUT_SEC'') + 1) * 1000000000),
                     ab_idleTimeout = 120 * 1000000000\<rparr>)
          in if DatabaseURL cfg \<noteq> [] \<and> issuerDBURL \<noteq> [] then
               (case NewAcquirerStore env (DatabaseURL cfg) issuerDBURL p0 of
                  (Inl e, p) \<Rightarrow> (Fatal (''failed to init acquirer store: '' @ error_text e), p, tm)
                | (Inr st, p) \<Rightarrow>
                    (case me_migrate me ''migrations/acquirer'' of
                       Some e \<Rightarrow> (Fatal (''failed to run acquirer migrations: '' @ error_text e), p, tm)
                     | None \<Rightarrow> (serve st ''migrations/acquirer'', p, tm)))
             else if DatabaseURL cfg \<noteq> [] then
               (case New env (DatabaseURL cfg) p0 of
                  (Inl e, p) \<Rightarrow> (Fatal (''failed to init postgres store: '' @ error_text e), p, tm)
                | (Inr st, p) \<Rightarrow>
                    (case me_migrate me ''migrations'' of
                       Some e \<Rightarrow> (Fatal (''failed to run migrations: '' @ error_text e), p, tm)
                     | None \<Rightarrow> (serve st ''migrations'', p, tm)))
             else (Fatal ''acquirer: DATABASE_URL not set - database is required'', p0, tm))"

record issuer_boot =
  ib_store :: PostgresStore
  ib_listen :: string
  ib_settings :: issuer_settings

definition issuer_main ::
  "main_env \<Rightarrow> pg_env \<Rightarrow> pools \<Rightarrow> telemetry \<Rightarrow> issuer_boot boot \<times> pools \<times> telemetry" where
  "issuer_main me env p0 tm =
     (let getenv = pe_getenv env; tm = main_otel me getenv ''issuer'' tm in
      case me_spec me of
        Some e \<Rightarrow> (Fatal (''failed to load ISO spec: '' @ error_text e), p0, tm)
      | None \<Rightarrow>
          let cfg = FromEnv getenv in
          if DatabaseURL cfg \<noteq> [] then
            (case New env (DatabaseURL cfg) p0 of
               (Inl e, p) \<Rightarrow> (Fatal (''failed to init postgres store: '' @ error_text e), p, tm)
             | (Inr st, p) \<Rightarrow>
                 (case me_migrate me ''migrations/issuer'' of
                    Some e \<Rightarrow> (Fatal (''failed to run issuer migrations: '' @ error_text e), p, tm)
                  | None \<Rightarrow>
                      let listenAddr = with_default ''0.0.0.0:5001'' (getenv ''ISSUER_LISTEN'') in
                      (case me_listen me of
                         Some e \<Rightarrow> Fatal (''issuer: listen error on '' @ listenAddr @ '': '' @ error_text e)
                       | None \<Rightarrow>
                           Serve \<lparr>ib_store = st, ib_listen = listenAddr,
                                  ib_settings = issuer_settings_of getenv\<rparr>,
                       p, tm)))
          else (Fatal ''issuer: DATABASE_URL not set - database is required'', p0, tm))"

lemmas main_splits = option.splits if_splits sum.splits prod.splits

text \<open>
  With both URLs set the acquirer administers cards in the issuer's database, writes its own
  transactions to its own, and has no issuer transaction repository: that list panics.
\<close>

lemma acquirer_split_databases:
  assumes "pools_ok p0" "acquirer_main me env p0 tm = (Serve b, p, tm')"
    and "pe_getenv env ''ISSUER_DATABASE_URL'' \<noteq> []"
  shows "\<exists>c d. (ps_cards (ab_store b), c) \<in> set (pl_open p) \<and>
    po_url c = pe_getenv env ''ISSUER_DATABASE_URL'' \<and>
    (ps_acquirerTransactions (ab_store b), d) \<in> set (pl_open p) \<and>
    po_url d = pe_getenv env ''DATABASE_URL'' \<and> ps_issuerTransactions (ab_store b) = None"
proof -
  obtain st where st: "NewAcquirerStore env (pe_getenv env ''DATABASE_URL'')
      (pe_getenv env ''ISSUER_DATABASE_URL'') p0 = (Inr st, p)" "ab_store b = st"
    using assms(2,3) by (auto simp: acquirer_main_def FromEnv_def Let_def split: main_splits)
  from NewAcquirerStore_pools [OF assms(1) st(1)] obtain a d c where
    "opened p0 [(ps_pool st, a), (ps_auditPool st, d), (ps_cards st, c)] st p"
    "po_url d = pe_getenv env ''DATABASE_URL''" "po_url c = pe_getenv env ''ISSUER_DATABASE_URL''"
    "ps_acquirerTransactions st = ps_auditPool st" "ps_issuerTransactions st = None"
    unfolding sum.case by blast
  then show ?thesis unfolding st(2) opened_def
    by (intro exI [of _ c] exI [of _ d]) simp
qed

lemma acquirer_single_database:
  assumes "pools_ok p0" "acquirer_main me env p0 tm = (Serve b, p, tm')"
    and "pe_getenv env ''ISSUER_DATABASE_URL'' = []"
  shows "ps_issuerTransactions (ab_store b) \<noteq> None"
proof -
  obtain st where st: "New env (pe_getenv env ''DATABASE_URL'') p0 = (Inr st, p)" "ab_store b = st"
    using assms(2,3) by (auto simp: acquirer_main_def FromEnv_def Let_def split: main_splits)
  from New_pools [OF assms(1) st(1)] st(2) show ?thesis by simp
qed

text \<open>
  Nothing is served without a database URL, a loaded specification and a listener; and whether
  telemetry could be set up decides nothing about serving.
\<close>

lemma acquirer_serves_needs:
  "acquirer_main me env p0 tm = (Serve b, p, tm') \<Longrightarrow>
     me_spec me = None \<and> me_listen me = None \<and> pe_getenv env ''DATABASE_URL'' \<noteq> []"
  by (auto simp: acquirer_main_def FromEnv_def Let_def split: main_splits)

lemma issuer_serves_needs:
  "issuer_main me env p0 tm = (Serve b, p, tm') \<Longrightarrow>
     me_spec me = None \<and> me_listen me = None \<and> pe_getenv env ''DATABASE_URL'' \<noteq> []"
  by (auto simp: issuer_main_def FromEnv_def Let_def split: main_splits)

lemma telemetry_decides_nothing:
  "fst (acquirer_main (me\<lparr>me_otel := o1\<rparr>) env p0 tm) = fst (acquirer_main me env p0 tm')"
  "fst (issuer_main (me\<lparr>me_otel := o1\<rparr>) env p0 tm) = fst (issuer_main me env p0 tm')"
  by (simp_all add: acquirer_main_def issuer_main_def Let_def split: option.split sum.split prod.split)

lemma refused_loop: "wait_loop fuel (\<lambda>_. Some e) now k \<noteq> Some None"
  by (induction fuel arbitrary: k) auto

text \<open>
  C39. No constructor leaks a connection pool: one that fails leaves open exactly the pools that
  were open before, at whichever step it failed, and \<open>Close\<close> of a store that was built closes
  every pool it opened and no other. The acquirer's store with two databases reads cards through
  the issuer's URL, writes its own transactions through its own, and has no issuer repository.
\<close>

theorem stores_leak_nothing:
  assumes "pools_ok p0"
  shows "(case New env url p0 of
      (Inl e, p) \<Rightarrow> pl_open p = pl_open p0
    | (Inr st, p) \<Rightarrow> (\<exists>a b. opened p0 [(ps_pool st, a), (ps_auditPool st, b)] st p)) \<and>
    (case NewAcquirerStore env url issuer p0 of
      (Inl e, p) \<Rightarrow> pl_open p = pl_open p0
    | (Inr st, p) \<Rightarrow> (\<exists>a b c. opened p0 [(ps_pool st, a), (ps_auditPool st, b), (ps_cards st, c)] st p \<and>
          po_url b = url \<and> po_url c = issuer) \<and>
        ps_acquirerTransactions st = ps_auditPool st \<and> ps_issuerTransactions st = None)"
proof (intro conjI)
  show "case New env url p0 of
      (Inl e, p) \<Rightarrow> pl_open p = pl_open p0
    | (Inr st, p) \<Rightarrow> (\<exists>a b. opened p0 [(ps_pool st, a), (ps_auditPool st, b)] st p)"
    using New_pools [OF assms, of env url] by (cases "New env url p0") (simp split: sum.splits)
next
  obtain x p where n: "NewAcquirerStore env url issuer p0 = (x, p)" by force
  from NewAcquirerStore_pools [OF assms n] show "case NewAcquirerStore env url issuer p0 of
      (Inl e, p) \<Rightarrow> pl_open p = pl_open p0
    | (Inr st, p) \<Rightarrow> (\<exists>a b c. opened p0 [(ps_pool st, a), (ps_auditPool st, b), (ps_cards st, c)] st p \<and>
          po_url b = url \<and> po_url c = issuer) \<and>
        ps_acquirerTransactions st = ps_auditPool st \<and> ps_issuerTransactions st = None"
    unfolding n by (cases x) auto
qed

theorem stores_leak_nothing_witness:
  "pl_open (snd (New \<lparr>pe_getenv = (\<lambda>_. []), pe_parse = (\<lambda>_. None), pe_create = (\<lambda>_. None),
       pe_ping = (\<lambda>_ _. Some (Errorf ''refused'')), pe_clock = (\<lambda>_ k. int k * 1000000000)\<rparr>
     ''postgres://'' \<lparr>pl_next = 0, pl_open = []\<rparr>)) = []"
proof -
  let ?env = "\<lparr>pe_getenv = (\<lambda>_. []), pe_parse = (\<lambda>_. None), pe_create = (\<lambda>_. None),
       pe_ping = (\<lambda>_ _. Some (Errorf ''refused'')), pe_clock = (\<lambda>_ k. int k * 1000000000)\<rparr>"
  let ?p0 = "\<lparr>pl_next = 0, pl_open = []\<rparr>"
  obtain x p where n: "New ?env ''postgres://'' ?p0 = (x, p)" by force
  have "pool_wait ?env 0 \<noteq> None"
    using refused_loop [of 62 "Errorf ''refused''" "\<lambda>k. int k * 1000000000" 0]
    by (auto simp: pool_wait_def waitForPool_def split: option.split)
  then have "\<exists>e. x = Inl e"
    using n by (auto simp: New_def open_pool_def)
  with stores_leak_nothing [of ?p0 ?env "''postgres://''"] n show ?thesis by (auto simp: pools_ok_def)
qed

end
