(* ===== verification/Router.thy ===== *)
theory Router
  imports Http_Server Limiter
begin

text \<open>
  The routes of internal/acquirer/http.go: which handler answers which method and path, and what
  stands in front of it. Matching a path is gin's; \<open>:id\<close> is its pattern for one segment. The
  health and metrics answers are functions of the limiter and of the runtime's numbers.

  The lemmas show that exactly the transaction route is limited and has a deadline, that no
  route is registered twice, and that what the limiter rejects never reaches the issuer.
\<close>

section \<open>The table\<close>

datatype http_method = GET | POST | PUT | DELETE

datatype endpoint =
    File string
  | FileAs string string
  | Health
  | Redirect nat string
  | Metrics
  | CreateCardEndpoint
  | ListCardsEndpoint
  | UpdateCardEndpoint
  | DeleteCardEndpoint
  | TopUpCardEndpoint
  | TransactionEndpoint
  | ListTransactionsEndpoint
  | ListIssuerTransactionsEndpoint

datatype middleware = Recovery | RequestTimeout | Concurrency

type_synonym route_entry = "http_method \<times> string \<times> middleware list \<times> endpoint"

definition Router :: "route_entry list" where
  "Router =
     [(GET, ''/'', [Recovery], File ''web/index.html''),
      (GET, ''/spec.json'', [Recovery], File ''web/spec.json''),
      (GET, ''/iso-engine.js'', [Recovery], File ''web/iso-engine.js''),
      (GET, ''/og-image.png'', [Recovery], FileAs ''image/png'' ''web/og-image.png''),
      (GET, ''/health'', [Recovery], Health),
      (GET, ''/healthz'', [Recovery], Redirect 307 ''/health''),
      (GET, ''/metrics'', [Recovery], Metrics),
      (POST, ''/v1/cards'', [Recovery], CreateCardEndpoint),
      (GET, ''/v1/cards'', [Recovery], ListCardsEndpoint),
      (PUT, ''/v1/cards/:id'', [Recovery], UpdateCardEndpoint),
      (DELETE, ''/v1/cards/:id'', [Recovery], DeleteCardEndpoint),
      (POST, ''/v1/cards/:id/topup'', [Recovery], TopUpCardEndpoint),
      (POST, ''/v1/transaction'', [Recovery, RequestTimeout, Concurrency], TransactionEndpoint),
      (GET, ''/v1/transactions'', [Recovery], ListTransactionsEndpoint),
      (GET, ''/v1/issuer-transactions'', [Recovery], ListIssuerTransactionsEndpoint)]"

lemma routes_distinct: "distinct (map (\<lambda>(m, p, _, _). (m, p)) Router)"
  by (simp add: Router_def)

lemma limited_routes:
  "filter (\<lambda>(_, _, mws, _). Concurrency \<in> set mws \<or> RequestTimeout \<in> set mws) Router =
     [(POST, ''/v1/transaction'', [Recovery, RequestTimeout, Concurrency], TransactionEndpoint)]"
  by (simp add: Router_def)

section \<open>Deadline, health and metrics\<close>

definition requestTimeout :: "environ \<Rightarrow> int64" where
  "requestTimeout getenv =
     wrap64 (positive_or 2 (getenv ''ACQUIRER_REQUEST_TIMEOUT_SEC'') * 1000000000)"

record health =
  h_status :: string
  h_active :: int
  h_queued :: int
  h_limit :: int
  h_max_concurrent :: int
  h_max_queue :: int
  h_rejected_total :: u64

definition health_answer :: "limits \<Rightarrow> limiter \<Rightarrow> nat \<times> health" where
  "health_answer cfg s =
     (200, \<lparr>h_status = ''ok'', h_active = Active s, h_queued = Queued_count s, h_limit = Limit cfg,
            h_max_concurrent = MaxConcurrent cfg, h_max_queue = MaxQueue cfg,
            h_rejected_total = RejectedTotal s\<rparr>)"

text \<open>The samples of \<open>/metrics\<close>, in order; goroutines and memory are the runtime's.\<close>

definition metrics_samples :: "limiter \<Rightarrow> int \<Rightarrow> u64 \<Rightarrow> (string \<times> int) list" where
  "metrics_samples s goroutines sys =
     [(''acquirer_in_flight_requests'', Active s),
      (''acquirer_queued_requests'', Queued_count s),
      (''acquirer_rejected_total'', uint (RejectedTotal s)),
      (''process_goroutines'', goroutines),
      (''process_resident_memory_bytes'', uint sys)]"

definition estimateRSSMemory :: "u64 \<Rightarrow> u64 \<Rightarrow> int64" where
  "estimateRSSMemory sys heapSys = wrap64 (sint sys - sint heapSys)"

section \<open>The transaction route\<close>

text \<open>
  One request to the transaction route, once the limiter has either rejected it with an event or
  let it through: only an admitted request reaches the handler.
\<close>

definition transaction_route ::
  "limits \<Rightarrow> limiter \<Rightarrow> int \<Rightarrow> limiter_event option \<Rightarrow> ('s acquirer \<Rightarrow> http_answer \<times> 's acquirer) \<Rightarrow>
   's acquirer \<Rightarrow> nat \<times> (rejection + json) \<times> 's acquirer" where
  "transaction_route cfg s waited rejected handler st =
     (case Option.bind rejected (reject_answer cfg s waited) of
        Some (code, _, body) \<Rightarrow> (code, Inl body, st)
      | None \<Rightarrow> (let ((code, body), st') = handler st in (code, Inr body, st')))"

lemma rejected_untouched:
  assumes "transaction_route cfg s w rejected handler st = (code, Inl body, st')"
  shows "st' = st \<and> code \<in> {408, 429}"
  using assms
  by (auto simp: transaction_route_def reject_answer_def Let_def bind_eq_Some_conv
      split: option.splits prod.splits limiter_event.splits)

end
