(* ===== verification/Migrate.thy ===== *)
theory Migrate
  imports Go_Strings "HOL-Library.Char_ord" "HOL-Library.List_Lexorder" "HOL-Library.Multiset"
begin

text \<open>
  internal/store/postgres/migrate.go: \<open>MigrateUp\<close> runs the scripts of a directory in the order of
  their names. What the file system and the database answer are arguments: the glob's result, the
  content of a file, and the effect of a script on the database. Strings are ordered by their
  bytes, as \<open>sort.Strings\<close> orders them.
\<close>

record 'db migrate_env =
  mg_pool_nil :: bool
  mg_dir :: string
  mg_glob :: "go_error + string list"
  mg_read :: "string \<Rightarrow> go_error + string"
  mg_exec :: "string \<Rightarrow> 'db \<Rightarrow> go_error option \<times> 'db"

fun run_scripts :: "'db migrate_env \<Rightarrow> string list \<Rightarrow> 'db \<Rightarrow> go_error option \<times> 'db" where
  "run_scripts env [] db = (None, db)"
| "run_scripts env (path # paths) db =
    (case mg_read env path of
       Inl e \<Rightarrow> (Some (Wrapf (''read migration '' @ path) e), db)
     | Inr b \<Rightarrow>
         let sql = trim_space b in
         if sql = [] then run_scripts env paths db
         else (case mg_exec env sql db of
                 (Some e, db') \<Rightarrow> (Some (Wrapf (''exec migration '' @ path) e), db')
               | (None, db') \<Rightarrow> run_scripts env paths db'))"

definition MigrateUp :: "'db migrate_env \<Rightarrow> 'db \<Rightarrow> go_error option \<times> 'db" where
  "MigrateUp env db =
     (if mg_pool_nil env then (Some (Errorf ''pool is nil''), db)
      else if mg_dir env = [] then (Some (Errorf ''migrationsDir is empty''), db)
      else case mg_glob env of
             Inl e \<Rightarrow> (Some (Wrapf ''glob migrations'' e), db)
           | Inr files \<Rightarrow>
               if files = [] then (Some (Errorf (''no migrations found in '' @ mg_dir env)), db)
               else run_scripts env (sort files) db)"

text \<open>The order in which the file system lists the scripts does not matter.\<close>

lemma MigrateUp_order:
  assumes "mg_glob env = Inr files" "mset files' = mset files"
  shows "MigrateUp (env\<lparr>mg_glob := Inr files'\<rparr>) db = MigrateUp env db"
proof -
  have same: "run_scripts (env\<lparr>mg_glob := g\<rparr>) ps db = run_scripts env ps db" for g ps db
    by (induction ps arbitrary: db) (auto simp: Let_def split: sum.split prod.split option.split)
  have "sort files' = sort files" using assms(2) by (metis properties_for_sort sorted_sort mset_sort)
  moreover have "files' = [] \<longleftrightarrow> files = []" using assms(2) by (metis mset_zero_iff)
  ultimately show ?thesis using assms(1) by (simp add: MigrateUp_def same)
qed

text \<open>The scripts run are those before the first failure; none runs after it.\<close>

fun apply_scripts :: "'db migrate_env \<Rightarrow> string list \<Rightarrow> 'db \<Rightarrow> 'db" where
  "apply_scripts env [] db = db"
| "apply_scripts env (p # ps) db =
    apply_scripts env ps
      (case mg_read env p of
         Inl _ \<Rightarrow> db
       | Inr b \<Rightarrow> if trim_space b = [] then db else snd (mg_exec env (trim_space b) db))"

lemma run_scripts_prefix:
  assumes "run_scripts env paths db = (r, db')"
  shows "\<exists>done rest. paths = done @ rest \<and> db' = apply_scripts env done db \<and>
    (r = None \<longrightarrow> rest = [])"
  using assms
proof (induction paths arbitrary: db)
  case (Cons p ps)
  consider (rd) e where "mg_read env p = Inl e"
    | (empty) b where "mg_read env p = Inr b" "trim_space b = []"
    | (run) b where "mg_read env p = Inr b" "trim_space b \<noteq> []"
    by (cases "mg_read env p") auto
  then show ?case
  proof cases
    case rd
    with Cons.prems show ?thesis by (intro exI [of _ "[]"] exI [of _ "p # ps"]) auto
  next
    case empty
    with Cons.prems have "run_scripts env ps db = (r, db')" by simp
    from Cons.IH [OF this] obtain d rest where "ps = d @ rest" "db' = apply_scripts env d db"
      "r = None \<longrightarrow> rest = []" by blast
    with empty show ?thesis by (intro exI [of _ "p # d"] exI [of _ rest]) simp
  next
    case run
    obtain x u where x: "mg_exec env (trim_space b) db = (x, u)" by force
    show ?thesis
    proof (cases x)
      case (Some e)
      with Cons.prems run x show ?thesis by (intro exI [of _ "[p]"] exI [of _ ps]) auto
    next
      case None
      with Cons.prems run x have "run_scripts env ps u = (r, db')" by simp
      from Cons.IH [OF this] obtain d rest where "ps = d @ rest" "db' = apply_scripts env d u"
        "r = None \<longrightarrow> rest = []" by blast
      with run x show ?thesis by (intro exI [of _ "p # d"] exI [of _ rest]) simp
    qed
  qed
qed auto

lemma MigrateUp_done:
  assumes "MigrateUp env db = (None, db')"
  obtains files where "mg_glob env = Inr files" "db' = apply_scripts env (sort files) db"
proof -
  obtain files where f: "mg_glob env = Inr files" "run_scripts env (sort files) db = (None, db')"
    using assms by (auto simp: MigrateUp_def split: if_splits sum.splits)
  from run_scripts_prefix [OF f(2)] that f(1) show ?thesis by auto
qed

end
