(* ===== verification/Scheme_Codes.thy ===== *)
theory Scheme_Codes
  imports Scheme_Bin Auth_Rules
begin

text \<open>
  internal/scheme/response_codes.go: the texts of the response codes by card scheme and the three
  classes of codes. Texts are the bytes of the source's UTF-8 literals. The lemmas say how the
  table and the classes fit together and how they cover the codes the authorization engine
  answers with.
\<close>

section \<open>The table\<close>

record ResponseCode =
  rc_Code :: string
  rc_Description :: string
  rc_Mastercard :: string
  rc_Visa :: string
  rc_Troy :: string

definition ResponseCodes :: "(string \<times> ResponseCode) list" where
  "ResponseCodes =
    [(''00'', \<lparr>rc_Code = ''00'', rc_Description = ''Approved'',
        rc_Mastercard = ''Approved'', rc_Visa = ''Approved'',
        rc_Troy = ''Onayland'' @ [CHR 0xC4, CHR 0xB1]\<rparr>),
     (''01'', \<lparr>rc_Code = ''01'', rc_Description = ''Refer to card issuer'',
        rc_Mastercard = ''Refer to card issuer'', rc_Visa = ''Refer to card issuer'',
        rc_Troy = ''Kart sahibine ba'' @ [CHR 0xC5, CHR 0x9F] @ ''vurun''\<rparr>),
     (''03'', \<lparr>rc_Code = ''03'', rc_Description = ''Invalid merchant'',
        rc_Mastercard = ''Invalid merchant'', rc_Visa = ''Invalid merchant'',
        rc_Troy = ''Ge'' @ [CHR 0xC3, CHR 0xA7] @ ''ersiz '' @ [CHR 0xC3, CHR 0xBC] @ ''ye i'' @ [CHR 0xC5, CHR 0x9F] @ ''yeri''\<rparr>),
     (''04'', \<lparr>rc_Code = ''04'', rc_Description = ''Capture card'',
        rc_Mastercard = ''Pick up card'', rc_Visa = ''Pick up card'',
        rc_Troy = ''Kart'' @ [CHR 0xC4, CHR 0xB1] @ '' al'' @ [CHR 0xC4, CHR 0xB1] @ ''n''\<rparr>),
     (''05'', \<lparr>rc_Code = ''05'', rc_Description = ''Do not honor'',
        rc_Mastercard = ''Do not honor'', rc_Visa = ''Do not honor'',
        rc_Troy = [CHR 0xC4, CHR 0xB0, CHR 0xC5, CHR 0x9F] @ ''lem onaylanmad'' @ [CHR 0xC4, CHR 0xB1]\<rparr>),
     (''06'', \<lparr>rc_Code = ''06'', rc_Description = ''Error'',
        rc_Mastercard = ''Error'', rc_Visa = ''Error'',
        rc_Troy = ''Hata''\<rparr>),
     (''07'', \<lparr>rc_Code = ''07'', rc_Description = ''Pick up card, special condition'',
        rc_Mastercard = ''Pick up card, special condition'', rc_Visa = ''Pick up card, special condition'',
        rc_Troy = ''Kart'' @ [CHR 0xC4, CHR 0xB1] @ '' al'' @ [CHR 0xC4, CHR 0xB1] @ ''n, '' @ [CHR 0xC3, CHR 0xB6] @ ''zel durum''\<rparr>),
     (''12'', \<lparr>rc_Code = ''12'', rc_Description = ''Invalid transaction'',
        rc_Mastercard = ''Invalid transaction'', rc_Visa = ''Invalid transaction'',
        rc_Troy = ''Ge'' @ [CHR 0xC3, CHR 0xA7] @ ''ersiz i'' @ [CHR 0xC5, CHR 0x9F] @ ''lem''\<rparr>),
     (''13'', \<lparr>rc_Code = ''13'', rc_Description = ''Invalid amount'',
        rc_Mastercard = ''Invalid amount'', rc_Visa = ''Invalid amount'',
        rc_Troy = ''Ge'' @ [CHR 0xC3, CHR 0xA7] @ ''ersiz tutar''\<rparr>),
     (''14'', \<lparr>rc_Code = ''14'', rc_Description = ''Invalid card number'',
        rc_Mastercard = ''Invalid card number'', rc_Visa = ''Invalid card number'',
        rc_Troy = ''Ge'' @ [CHR 0xC3, CHR 0xA7] @ ''ersiz kart numaras'' @ [CHR 0xC4, CHR 0xB1]\<rparr>),
     (''15'', \<lparr>rc_Code = ''15'', rc_Description = ''No such issuer'',
        rc_Mastercard = ''No such issuer'', rc_Visa = ''No such issuer'',
        rc_Troy = ''B'' @ [CHR 0xC3, CHR 0xB6] @ ''yle bir banka yok''\<rparr>),
     (''19'', \<lparr>rc_Code = ''19'', rc_Description = ''Re-enter transaction'',
        rc_Mastercard = ''Re-enter transaction'', rc_Visa = ''Re-enter transaction'',
        rc_Troy = [CHR 0xC4, CHR 0xB0, CHR 0xC5, CHR 0x9F] @ ''lemi tekrar girin''\<rparr>),
     (''30'', \<lparr>rc_Code = ''30'', rc_Description = ''Format error'',
        rc_Mastercard = ''Format error'', rc_Visa = ''Format error'',
        rc_Troy = ''Format hatas'' @ [CHR 0xC4, CHR 0xB1]\<rparr>),
     (''41'', \<lparr>rc_Code = ''41'', rc_Description = ''Lost card'',
        rc_Mastercard = ''Lost card, pick up'', rc_Visa = ''Lost card'',
        rc_Troy = ''Kay'' @ [CHR 0xC4, CHR 0xB1] @ ''p kart''\<rparr>),
     (''43'', \<lparr>rc_Code = ''43'', rc_Description = ''Stolen card'',
        rc_Mastercard = ''Stolen card, pick up'', rc_Visa = ''Stolen card'',
        rc_Troy = [CHR 0xC3, CHR 0x87] @ ''al'' @ [CHR 0xC4, CHR 0xB1] @ ''nt'' @ [CHR 0xC4, CHR 0xB1] @ '' kart''\<rparr>),
     (''51'', \<lparr>rc_Code = ''51'', rc_Description = ''Insufficient funds'',
        rc_Mastercard = ''Insufficient funds'', rc_Visa = ''Insufficient funds'',
        rc_Troy = ''Yetersiz bakiye''\<rparr>),
     (''54'', \<lparr>rc_Code = ''54'', rc_Description = ''Expired card'',
        rc_Mastercard = ''Expired card'', rc_Visa = ''Expired card'',
        rc_Troy = ''Kart'' @ [CHR 0xC4, CHR 0xB1] @ ''n s'' @ [CHR 0xC3, CHR 0xBC] @ ''resi dolmu'' @ [CHR 0xC5, CHR 0x9F]\<rparr>),
     (''55'', \<lparr>rc_Code = ''55'', rc_Description = ''Incorrect PIN'',
        rc_Mastercard = ''Incorrect PIN'', rc_Visa = ''Incorrect PIN'',
        rc_Troy = ''Hatal'' @ [CHR 0xC4, CHR 0xB1] @ '' PIN''\<rparr>),
     (''56'', \<lparr>rc_Code = ''56'', rc_Description = ''No card record'',
        rc_Mastercard = ''No card record'', rc_Visa = ''No card record'',
        rc_Troy = ''Kart kayd'' @ [CHR 0xC4, CHR 0xB1] @ '' bulunamad'' @ [CHR 0xC4, CHR 0xB1]\<rparr>),
     (''57'', \<lparr>rc_Code = ''57'', rc_Description = ''Transaction not permitted to cardholder'',
        rc_Mastercard = ''Transaction not permitted to cardholder'', rc_Visa = ''Transaction not permitted to cardholder'',
        rc_Troy = [CHR 0xC4, CHR 0xB0, CHR 0xC5, CHR 0x9F] @ ''lem kart sahibine izin verilmiyor''\<rparr>),
     (''58'', \<lparr>rc_Code = ''58'', rc_Description = ''Transaction not permitted to terminal'',
        rc_Mastercard = ''Transaction not permitted to terminal'', rc_Visa = ''Transaction not permitted to terminal'',
        rc_Troy = [CHR 0xC4, CHR 0xB0, CHR 0xC5, CHR 0x9F] @ ''lem terminale izin verilmiyor''\<rparr>),
     (''61'', \<lparr>rc_Code = ''61'', rc_Description = ''Exceeds withdrawal amount limit'',
        rc_Mastercard = ''Exceeds withdrawal amount limit'', rc_Visa = ''Exceeds withdrawal amount limit'',
        rc_Troy = [CHR 0xC3, CHR 0x87] @ ''ekim limiti a'' @ [CHR 0xC5, CHR 0x9F, CHR 0xC4, CHR 0xB1] @ ''ld'' @ [CHR 0xC4, CHR 0xB1]\<rparr>),
     (''62'', \<lparr>rc_Code = ''62'', rc_Description = ''Restricted card'',
        rc_Mastercard = ''Restricted card'', rc_Visa = ''Restricted card'',
        rc_Troy = ''K'' @ [CHR 0xC4, CHR 0xB1] @ ''s'' @ [CHR 0xC4, CHR 0xB1] @ ''tl'' @ [CHR 0xC4, CHR 0xB1] @ '' kart''\<rparr>),
     (''63'', \<lparr>rc_Code = ''63'', rc_Description = ''Security violation'',
        rc_Mastercard = ''Security violation'', rc_Visa = ''Security violation'',
        rc_Troy = ''G'' @ [CHR 0xC3, CHR 0xBC] @ ''venlik ihlali''\<rparr>),
     (''65'', \<lparr>rc_Code = ''65'', rc_Description = ''Exceeds withdrawal frequency limit'',
        rc_Mastercard = ''Exceeds withdrawal frequency limit'', rc_Visa = ''Exceeds withdrawal frequency limit'',
        rc_Troy = [CHR 0xC3, CHR 0x87] @ ''ekim s'' @ [CHR 0xC4, CHR 0xB1] @ ''kl'' @ [CHR 0xC4, CHR 0xB1, CHR 0xC4, CHR 0x9F, CHR 0xC4, CHR 0xB1] @ '' limiti a'' @ [CHR 0xC5, CHR 0x9F, CHR 0xC4, CHR 0xB1] @ ''ld'' @ [CHR 0xC4, CHR 0xB1]\<rparr>),
     (''75'', \<lparr>rc_Code = ''75'', rc_Description = ''Allowable number of PIN tries exceeded'',
        rc_Mastercard = ''PIN tries exceeded'', rc_Visa = ''PIN tries exceeded'',
        rc_Troy = ''PIN deneme say'' @ [CHR 0xC4, CHR 0xB1] @ ''s'' @ [CHR 0xC4, CHR 0xB1] @ '' a'' @ [CHR 0xC5, CHR 0x9F, CHR 0xC4, CHR 0xB1] @ ''ld'' @ [CHR 0xC4, CHR 0xB1]\<rparr>),
     (''76'', \<lparr>rc_Code = ''76'', rc_Description = ''Invalid/nonexistent account'',
        rc_Mastercard = ''Invalid/nonexistent account'', rc_Visa = ''Invalid/nonexistent account'',
        rc_Troy = ''Ge'' @ [CHR 0xC3, CHR 0xA7] @ ''ersiz hesap''\<rparr>),
     (''78'', \<lparr>rc_Code = ''78'', rc_Description = ''Blocked, first used'',
        rc_Mastercard = ''Blocked, first used'', rc_Visa = ''Blocked, first used'',
        rc_Troy = ''Bloke, ilk kullan'' @ [CHR 0xC4, CHR 0xB1] @ ''m''\<rparr>),
     (''82'', \<lparr>rc_Code = ''82'', rc_Description = ''Negative CAM, dCVV, iCVV, or CVV results'',
        rc_Mastercard = ''Negative CAM, dCVV, iCVV, or CVV results'', rc_Visa = ''Negative CAM, dCVV, iCVV, or CVV results'',
        rc_Troy = ''CVV do'' @ [CHR 0xC4, CHR 0x9F] @ ''rulama hatas'' @ [CHR 0xC4, CHR 0xB1]\<rparr>),
     (''85'', \<lparr>rc_Code = ''85'', rc_Description = ''No reason to decline'',
        rc_Mastercard = ''No reason to decline'', rc_Visa = ''No reason to decline'',
        rc_Troy = ''Reddetme nedeni yok''\<rparr>),
     (''91'', \<lparr>rc_Code = ''91'', rc_Description = ''Issuer or switch inoperative'',
        rc_Mastercard = ''Issuer or switch inoperative'', rc_Visa = ''Issuer unavailable'',
        rc_Troy = ''Banka eri'' @ [CHR 0xC5, CHR 0x9F] @ ''ilemez''\<rparr>),
     (''94'', \<lparr>rc_Code = ''94'', rc_Description = ''Duplicate transmission'',
        rc_Mastercard = ''Duplicate transmission'', rc_Visa = ''Duplicate transmission'',
        rc_Troy = ''Tekrarlanan i'' @ [CHR 0xC5, CHR 0x9F] @ ''lem''\<rparr>),
     (''96'', \<lparr>rc_Code = ''96'', rc_Description = ''System malfunction'',
        rc_Mastercard = ''System malfunction'', rc_Visa = ''System error'',
        rc_Troy = ''Sistem hatas'' @ [CHR 0xC4, CHR 0xB1]\<rparr>)]"

definition GetResponseDescription :: "string \<Rightarrow> CardScheme \<Rightarrow> string" where
  "GetResponseDescription code scheme =
     (case map_of ResponseCodes code of
        None \<Rightarrow> ''Unknown response code''
      | Some rc \<Rightarrow>
          if scheme = SchemeMastercard then rc_Mastercard rc
          else if scheme = SchemeVisa then rc_Visa rc
          else if scheme = SchemeTroy then rc_Troy rc
          else rc_Description rc)"

section \<open>The classes\<close>

definition IsApproved :: "string \<Rightarrow> bool" where
  "IsApproved code \<longleftrightarrow> code = ''00'' \<or> code = ''10'' \<or> code = ''11''"

definition declineCodes :: "string list" where
  "declineCodes = [''05'', ''14'', ''41'', ''43'', ''51'', ''54'', ''55'', ''57'', ''61'', ''62'', ''65'', ''75'']"

definition IsDeclined :: "string \<Rightarrow> bool" where
  "IsDeclined code \<longleftrightarrow> code \<in> set declineCodes"

definition IsSystemError :: "string \<Rightarrow> bool" where
  "IsSystemError code \<longleftrightarrow> code = ''91'' \<or> code = ''96''"

lemmas class_defs = IsApproved_def IsDeclined_def IsSystemError_def declineCodes_def

section \<open>How they fit together\<close>

lemma table_keys: "map fst ResponseCodes = map (rc_Code \<circ> snd) ResponseCodes"
  by (simp add: ResponseCodes_def)

lemma table_codes:
  "map fst ResponseCodes =
    [''00'', ''01'', ''03'', ''04'', ''05'', ''06'', ''07'', ''12'', ''13'', ''14'', ''15'', ''19'',
     ''30'', ''41'', ''43'', ''51'', ''54'', ''55'', ''56'', ''57'', ''58'', ''61'', ''62'', ''63'',
     ''65'', ''75'', ''76'', ''78'', ''82'', ''85'', ''91'', ''94'', ''96'']"
  by (simp add: ResponseCodes_def)

lemma table_distinct: "distinct (map fst ResponseCodes)"
  unfolding table_codes by simp

text \<open>No code is in two classes, and every code of the last two classes has a text.\<close>

lemma classes_disjoint:
  "\<not> (IsApproved code \<and> IsDeclined code)" "\<not> (IsApproved code \<and> IsSystemError code)"
  "\<not> (IsDeclined code \<and> IsSystemError code)"
  by (auto simp: class_defs)

lemma classes_described:
  "IsDeclined code \<or> IsSystemError code \<Longrightarrow> code \<in> set (map fst ResponseCodes)"
  unfolding table_codes by (auto simp: class_defs)

text \<open>
  Of the codes the engine answers with, the table describes all, and the classes place all but
  the one for a blocked card.
\<close>

definition engine_codes :: "string list" where
  "engine_codes = [RespApproved, RespDoNotHonor, RespInvalidCardNumber, RespInsufficientFunds,
     RespExpiredCard, RespBlockedCard, RespSystemMalfunction]"

lemma engine_codes_described: "list_all (\<lambda>c. c \<in> set (map fst ResponseCodes)) engine_codes"
  unfolding table_codes by (simp add: engine_codes_def resp_codes)

lemma engine_codes_classified:
  "filter (\<lambda>c. \<not> (IsApproved c \<or> IsDeclined c \<or> IsSystemError c)) engine_codes = [RespBlockedCard]"
  by (simp add: engine_codes_def resp_codes class_defs)

end
