(* ===== verification/Scheme_Emv.thy ===== *)
theory Scheme_Emv
  imports Go_Hex
begin

text \<open>
  internal/scheme/emv.go: field 55 as a list of EMV tags. \<open>ParseEMVData\<close> walks over the decoded
  bytes with an index and Go's 64-bit \<open>int\<close>, so a long-form length of eight or more bytes can be
  negative or wrap the index; the slice expression then panics, which is the outcome \<open>Panic\<close>.

  The lemmas show that data built by \<open>BuildEMVData\<close> parses back to its tags, and where the parser
  can panic: never on fewer than ten bytes, and on a certain input of ten.
\<close>

unbundle bit_operations_syntax

section \<open>Tags\<close>

record EMVTag =
  t_Tag :: string
  t_Length :: int
  t_Value :: string
  t_Name :: string

definition EMVTagNames :: "(string \<times> string) list" where
  "EMVTagNames =
    [(''9F26'', ''Application Cryptogram''), (''9F27'', ''Cryptogram Information Data''),
     (''9F10'', ''Issuer Application Data''), (''9F37'', ''Unpredictable Number''),
     (''9F36'', ''Application Transaction Counter''), (''95'', ''Terminal Verification Results''),
     (''9A'', ''Transaction Date''), (''9C'', ''Transaction Type''),
     (''9F02'', ''Amount Authorized''), (''9F03'', ''Amount Other''),
     (''9F1A'', ''Terminal Country Code''), (''5F2A'', ''Transaction Currency Code''),
     (''82'', ''Application Interchange Profile''),
     (''9F34'', ''Cardholder Verification Method Results''), (''9F35'', ''Terminal Type''),
     (''9F1E'', ''Interface Device Serial Number''), (''84'', ''Dedicated File Name''),
     (''9F09'', ''Application Version Number''), (''9F33'', ''Terminal Capabilities''),
     (''9F40'', ''Additional Terminal Capabilities''),
     (''9F06'', ''Application Identifier (AID)''), (''9F07'', ''Application Usage Control''),
     (''5F34'', ''PAN Sequence Number''), (''9F0D'', ''Issuer Action Code - Default''),
     (''9F0E'', ''Issuer Action Code - Denial''), (''9F0F'', ''Issuer Action Code - Online'')]"

definition tag_name :: "string \<Rightarrow> string" where
  "tag_name tag = (case map_of EMVTagNames tag of Some n \<Rightarrow> n | None \<Rightarrow> ''Unknown Tag'')"

section \<open>Parsing\<close>

text \<open>The tag at a position and the position after it; none when the second byte is missing.\<close>

definition two_byte_tag :: "byte \<Rightarrow> bool" where
  "two_byte_tag b \<longleftrightarrow> b AND 0x1F = 0x1F"

definition emv_tag :: "byte list \<Rightarrow> nat \<Rightarrow> (string \<times> nat) option" where
  "emv_tag data pos =
     (if two_byte_tag (data ! pos) then
        (if pos + 1 \<ge> length data then None
         else Some (hex_byte_upper (data ! pos) @ hex_byte_upper (data ! (pos + 1)), pos + 2))
      else Some (hex_byte_upper (data ! pos), pos + 1))"

definition be_int :: "byte list \<Rightarrow> int" where
  "be_int bs = sint (foldl (\<lambda>l b. (push_bit 8 l) OR ucast b) (0 :: u64) bs)"

definition emv_length :: "byte list \<Rightarrow> nat \<Rightarrow> (int \<times> nat) option" where
  "emv_length data pos =
     (if data ! pos AND 0x80 = 0 then Some (uint (data ! pos), pos + 1)
      else
        let numLengthBytes = unat (data ! pos AND 0x7F); pos = pos + 1 in
        if pos + numLengthBytes > length data then None
        else Some (be_int (take numLengthBytes (drop pos data)), pos + numLengthBytes))"

text \<open>One turn of the loop: it ends, panics, or adds a tag and goes on further right.\<close>

datatype emv_result = Halt | Crash | Add EMVTag nat

definition emv_turn :: "byte list \<Rightarrow> nat \<Rightarrow> emv_result" where
  "emv_turn data pos =
     (case emv_tag data pos of
        None \<Rightarrow> Halt
      | Some (tag, pos1) \<Rightarrow>
          if pos1 \<ge> length data then Halt
          else (case emv_length data pos1 of
             None \<Rightarrow> Halt
           | Some (len, pos2) \<Rightarrow>
               let hi = wrap64 (int pos2 + len) in
               if hi > int (length data) then Halt
               else if hi < int pos2 then Crash
               else Add \<lparr>t_Tag = tag, t_Length = len,
                         t_Value = hex_encode (take (nat hi - pos2) (drop pos2 data)),
                         t_Name = tag_name tag\<rparr> (nat hi)))"

lemma emv_tag_right: "emv_tag data pos = Some (tag, pos1) \<Longrightarrow> pos < pos1"
  by (auto simp: emv_tag_def split: if_splits)

lemma emv_length_right: "emv_length data pos = Some (len, pos1) \<Longrightarrow> pos < pos1"
  by (auto simp: emv_length_def Let_def split: if_splits)

lemma emv_turn_right: "emv_turn data pos = Add t pos' \<Longrightarrow> pos < pos' \<and> pos' \<le> length data"
  by (auto simp: emv_turn_def Let_def split: option.splits if_splits
      dest!: emv_tag_right emv_length_right, linarith+)

function emv_loop :: "byte list \<Rightarrow> nat \<Rightarrow> EMVTag list outcome" where
  "emv_loop data pos =
     (if pos < length data then
        (case emv_turn data pos of
           Halt \<Rightarrow> Return []
         | Crash \<Rightarrow> Panic ''slice bounds out of range''
         | Add t pos' \<Rightarrow>
             (case emv_loop data pos' of
                Return ts \<Rightarrow> Return (t # ts)
              | Panic p \<Rightarrow> Panic p))
      else Return [])"
  by pat_completeness auto
termination
  by (relation "measure (\<lambda>(data, pos). length data - pos)") (auto dest: emv_turn_right)

declare emv_loop.simps [simp del]

definition ParseEMVData :: "string \<Rightarrow> (go_error + EMVTag list) outcome" where
  "ParseEMVData hexData =
     (if hexData = [] then Return (Inr [])
      else case hex_decode hexData of
             Inl e \<Rightarrow> Return (Inl (Wrapf ''invalid hex data'' e))
           | Inr data \<Rightarrow>
               (case emv_loop data 0 of
                  Return ts \<Rightarrow> Return (Inr ts)
                | Panic p \<Rightarrow> Panic p))"

section \<open>Lookup, building and validation\<close>

fun GetEMVTagValue :: "EMVTag list \<Rightarrow> string \<Rightarrow> string" where
  "GetEMVTagValue [] tagID = []"
| "GetEMVTagValue (t # ts) tagID = (if t_Tag t = tagID then t_Value t else GetEMVTagValue ts tagID)"

definition build_length :: "nat \<Rightarrow> byte list" where
  "build_length n =
     (if n < 128 then [of_nat n]
      else if n < 256 then [0x81, of_nat n]
      else [0x82, of_nat (n div 256), of_nat (n mod 256)])"

fun build_tags :: "EMVTag list \<Rightarrow> go_error + byte list" where
  "build_tags [] = Inr []"
| "build_tags (t # ts) =
    (case hex_decode (t_Tag t) of
       Inl e \<Rightarrow> Inl (Wrapf (''invalid tag '' @ t_Tag t) e)
     | Inr tagBytes \<Rightarrow>
         (case hex_decode (t_Value t) of
            Inl e \<Rightarrow> Inl (Wrapf (''invalid value for tag '' @ t_Tag t) e)
          | Inr valueBytes \<Rightarrow>
              (case build_tags ts of
                 Inl e \<Rightarrow> Inl e
               | Inr rest \<Rightarrow>
                   Inr (tagBytes @ build_length (length valueBytes) @ valueBytes @ rest))))"

definition BuildEMVData :: "EMVTag list \<Rightarrow> go_error + string" where
  "BuildEMVData tags =
     (case build_tags tags of Inl e \<Rightarrow> Inl e | Inr bs \<Rightarrow> Inr (hex_encode bs))"

definition required_tags :: "string list" where
  "required_tags = [''9F26'', ''9F27'', ''9F10'', ''9F37'', ''9F36'']"

fun check_required :: "string list \<Rightarrow> EMVTag list \<Rightarrow> go_error option" where
  "check_required [] tags = None"
| "check_required (r # rs) tags =
    (if list_ex (\<lambda>t. t_Tag t = r) tags then check_required rs tags
     else Some (Errorf (''missing required EMV tag: '' @ r @ '' ('' @
       (case map_of EMVTagNames r of Some n \<Rightarrow> n | None \<Rightarrow> []) @ '')'')))"

definition ValidateEMVCryptogram :: "EMVTag list \<Rightarrow> go_error option" where
  "ValidateEMVCryptogram tags = check_required required_tags tags"

lemma ValidateEMVCryptogram_ok:
  "ValidateEMVCryptogram tags = None \<longleftrightarrow> set required_tags \<subseteq> t_Tag ` set tags"
proof -
  have "check_required rs tags = None \<longleftrightarrow> set rs \<subseteq> t_Tag ` set tags" for rs
    by (induction rs) (auto simp: list_ex_iff)
  then show ?thesis by (simp add: ValidateEMVCryptogram_def)
qed


section \<open>No panic on short data\<close>

lemma be_int_bits:
  "8 * length bs \<le> n \<Longrightarrow> \<not> bit (foldl (\<lambda>l b. (push_bit 8 l) OR ucast b) (0 :: u64) (bs :: byte list)) n"
proof (induction bs arbitrary: n rule: rev_induct)
  case (snoc b bs)
  have "8 \<le> n" "8 * length bs \<le> n - 8" using snoc.prems by auto
  moreover have "\<not> bit b n" using bit_imp_le_length [of b n] \<open>8 \<le> n\<close> by auto
  ultimately show ?case using snoc.IH [of "n - 8"] by (auto simp: bit_simps)
qed simp

lemma sint_of_small:
  fixes w :: u64
  assumes "\<And>n. 56 \<le> n \<Longrightarrow> \<not> bit w n"
  shows "0 \<le> sint w \<and> sint w < 2 ^ 56"
proof -
  have "take_bit 56 w = w"
  proof (rule bit_word_eqI)
    fix n show "bit (take_bit 56 w) n \<longleftrightarrow> bit w n"
      using assms [of n] by (cases "n < 56") (auto simp: bit_simps)
  qed
  then have "uint w = take_bit 56 (uint w)" by (metis unsigned_take_bit_eq)
  then have u: "0 \<le> uint w" "uint w < 2 ^ 56" using take_bit_int_less_exp [of 56 "uint w"] by simp_all
  have "int64_min \<le> uint w" by (rule order_trans [OF _ u(1)]) (simp add: int64_min_def)
  moreover have "uint w \<le> int64_max" using u(2) by (simp add: int64_max_def)
  ultimately have "in_int64 (uint w)" by (simp add: in_int64_def)
  with u show ?thesis using sint_of_int_int64 [of "uint w"] by simp
qed

lemma be_int_short: "length bs \<le> 7 \<Longrightarrow> 0 \<le> be_int bs \<and> be_int bs < 2 ^ 56"
  unfolding be_int_def by (rule sint_of_small) (rule be_int_bits, simp)

lemma emv_length_short:
  assumes "emv_length data pos = Some (len, pos')" "length data < 9 + pos"
  shows "0 \<le> len \<and> len < 2 ^ 56"
proof (cases "data ! pos AND 0x80 = 0")
  case True
  then have "len = uint (data ! pos)" using assms(1) by (simp add: emv_length_def)
  moreover have "uint (data ! pos) < 256" using unsigned_less [of "data ! pos"] by simp
  ultimately show ?thesis by simp
next
  case False
  let ?n = "unat (data ! pos AND 0x7F)"
  have "pos + 1 + ?n \<le> length data" "len = be_int (take ?n (drop (pos + 1) data))"
    using assms(1) False by (auto simp: emv_length_def Let_def split: if_splits)
  with assms(2) be_int_short show ?thesis by simp
qed

lemma emv_turn_short:
  assumes "length data < 10" shows "emv_turn data pos \<noteq> Crash"
proof
  assume "emv_turn data pos = Crash"
  then obtain tag pos1 len pos2 where
    t: "emv_tag data pos = Some (tag, pos1)" and l: "emv_length data pos1 = Some (len, pos2)"
    and bad: "wrap64 (int pos2 + len) < int pos2" "pos1 < length data"
    by (auto simp: emv_turn_def Let_def split: option.splits if_splits)
  have "0 \<le> len \<and> len < 2 ^ 56"
    using l assms emv_tag_right [OF t] by (intro emv_length_short [OF l]) simp
  moreover have "pos2 < 10 + 256"
    using l assms bad(2) unat_byte_lt [of "data ! pos1 AND 0x7F"]
    by (auto simp: emv_length_def Let_def split: if_splits)
  ultimately have "wrap64 (int pos2 + len) = int pos2 + len"
    by (intro wrap64_id) (simp add: in_int64_def int64_min_def int64_max_def)
  with bad(1) \<open>0 \<le> len \<and> len < 2 ^ 56\<close> show False by simp
qed

lemma emv_loop_short: "length data < 10 \<Longrightarrow> \<exists>ts. emv_loop data pos = Return ts"
proof (induction data pos rule: emv_loop.induct)
  case (1 data pos)
  show ?case
  proof (cases "emv_turn data pos")
    case Crash
    with emv_turn_short [OF 1(2)] show ?thesis by simp
  next
    case (Add t pos')
    show ?thesis
    proof (cases "pos < length data")
      case True
      from 1(1) [OF True Add 1(2)] True Add show ?thesis by (auto simp: emv_loop.simps [of data pos])
    qed (simp add: emv_loop.simps [of data pos])
  qed (simp add: emv_loop.simps [of data pos])
qed

lemma ParseEMVData_short:
  assumes "length hexData < 20" shows "\<exists>x. ParseEMVData hexData = Return x"
proof (cases "hex_decode hexData")
  case (Inl e)
  then show ?thesis by (simp add: ParseEMVData_def)
next
  case (Inr data)
  have "length data < 10" using hex_decode_length [OF Inr] assms by simp
  from emv_loop_short [OF this, of 0] Inr show ?thesis by (auto simp: ParseEMVData_def)
qed

text \<open>Ten bytes are enough: tag 9A with an eight-byte length of all ones, which reads as -1.\<close>

lemma ParseEMVData_panics: "ParseEMVData ''9A88FFFFFFFFFFFFFFFF'' = Panic ''slice bounds out of range''"
proof -
  let ?d = "[0x9A, 0x88, 0xFF, 0xFF, 0xFF, 0xFF, 0xFF, 0xFF, 0xFF, 0xFF] :: byte list"
  have d: "hex_decode ''9A88FFFFFFFFFFFFFFFF'' = Inr ?d" by (simp add: from_hex_char_def)
  have "be_int [0xFF, 0xFF, 0xFF, 0xFF, 0xFF, 0xFF, 0xFF, 0xFF] = -1"
    unfolding be_int_def by code_simp
  then have "emv_length ?d 1 = Some (-1, 10)" by (simp add: emv_length_def)
  moreover have "emv_tag ?d 0 = Some (hex_byte_upper 0x9A, 1)" by (simp add: emv_tag_def two_byte_tag_def)
  ultimately have "emv_turn ?d 0 = Crash"
    by (simp add: emv_turn_def wrap64_id in_int64_def int64_min_def int64_max_def)
  then show ?thesis unfolding ParseEMVData_def d by (simp add: emv_loop.simps [of ?d 0])
qed

section \<open>Building and parsing back\<close>

definition tag_bytes_ok :: "byte list \<Rightarrow> bool" where
  "tag_bytes_ok tb \<longleftrightarrow>
     (\<exists>a. tb = [a] \<and> \<not> two_byte_tag a) \<or> (\<exists>a b. tb = [a, b] \<and> two_byte_tag a)"

text \<open>A tag as the parser produces it.\<close>

definition parsed_tag :: "byte list \<Rightarrow> byte list \<Rightarrow> EMVTag" where
  "parsed_tag tb v =
     \<lparr>t_Tag = concat (map hex_byte_upper tb), t_Length = int (length v),
      t_Value = hex_encode v, t_Name = tag_name (concat (map hex_byte_upper tb))\<rparr>"

lemma hex_decode_upper: "hex_decode (concat (map hex_byte_upper tb)) = Inr tb"
  by (induction tb) (simp_all add: hex_decode_upper_byte)

lemma emv_tag_at:
  assumes "tag_bytes_ok tb" "rest \<noteq> []"
  shows "emv_tag (pre @ tb @ rest) (length pre) =
    Some (concat (map hex_byte_upper tb), length pre + length tb)"
  using assms by (auto simp: tag_bytes_ok_def emv_tag_def nth_append)

lemma be_int_one: "n < 256 \<Longrightarrow> be_int [of_nat n] = int n"
  using sint_of_int_int64 [of "int n"]
  by (simp add: be_int_def unsigned_of_nat take_bit_nat_eq_self in_int64_def int64_min_def int64_max_def)

lemma be_int_two:
  assumes "n < 65536" shows "be_int [of_nat (n div 256), of_nat (n mod 256)] = int n"
proof -
  let ?a = "of_nat (n div 256) :: byte" and ?b = "of_nat (n mod 256) :: byte"
  have u: "ucast ?a = (of_nat (n div 256) :: u64)" "ucast ?b = (of_nat (n mod 256) :: u64)"
    using assms by (simp_all add: unsigned_of_nat take_bit_nat_eq_self less_mult_imp_div_less)
  have "(push_bit 8 (ucast ?a :: u64)) AND ucast ?b = 0"
    by (rule bit_word_eqI) (auto simp: bit_simps)
  then have "(push_bit 8 (ucast ?a :: u64)) OR ucast ?b = push_bit 8 (ucast ?a) + ucast ?b"
    by (metis word_plus_and_or add_0)
  also have "\<dots> = of_nat (256 * (n div 256) + n mod 256)"
    unfolding u by (simp only: push_bit_eq_mult of_nat_add of_nat_mult) simp
  also have "\<dots> = of_nat n" by simp
  finally have "be_int [?a, ?b] = sint (of_nat n :: u64)" by (simp add: be_int_def)
  with assms sint_of_int_int64 [of "int n"] show ?thesis
    by (simp add: in_int64_def int64_min_def int64_max_def)
qed

lemma emv_length_at:
  assumes "length v < 65536"
  shows "emv_length (pre @ build_length (length v) @ v @ rest) (length pre) =
    Some (int (length v), length pre + length (build_length (length v)))"
proof -
  let ?n = "length v"
  consider "?n < 128" | "128 \<le> ?n" "?n < 256" | "256 \<le> ?n" by linarith
  then show ?thesis
  proof cases
    case 1
    have "\<not> bit ?n 7" using 1 by (simp add: bit_iff_odd)
    then have "(of_nat ?n :: byte) AND 2 ^ 7 = 0"
      by (simp only: and_exp_eq_0_iff_not_bit) (simp add: bit_simps)
    then have "(of_nat ?n :: byte) AND 0x80 = 0" by simp
    with 1 show ?thesis
      by (simp add: emv_length_def build_length_def nth_append unsigned_of_nat take_bit_nat_eq_self)
  next
    case 2
    then show ?thesis
      by (simp add: emv_length_def build_length_def nth_append be_int_one Let_def)
  next
    case 3
    with assms show ?thesis
      by (simp add: emv_length_def build_length_def nth_append be_int_two Let_def take_Cons')
  qed
qed


lemma build_length_nonempty [simp]: "build_length n \<noteq> []"
  by (simp add: build_length_def)

lemma emv_turn_at:
  fixes pre rest v tb
  defines "data \<equiv> pre @ tb @ build_length (length v) @ v @ rest"
  assumes "tag_bytes_ok tb" "length v < 65536" "int (length data) \<le> int64_max"
  shows "emv_turn data (length pre) =
    Add (parsed_tag tb v) (length pre + length tb + length (build_length (length v)) + length v)"
proof -
  have tag: "emv_tag data (length pre) = Some (concat (map hex_byte_upper tb), length pre + length tb)"
    unfolding data_def by (rule emv_tag_at [OF assms(2)]) simp
  have len: "emv_length data (length pre + length tb) =
      Some (int (length v), length pre + length tb + length (build_length (length v)))"
    using emv_length_at [OF assms(3), of "pre @ tb" rest] by (simp add: data_def)
  let ?pos = "length pre + length tb + length (build_length (length v))"
  have sz: "length data = ?pos + length v + length rest" by (simp add: data_def)
  have "0 < length (build_length (length v))" by simp
  then have lt: "length pre + length tb < length data" unfolding sz by linarith
  have "int64_min \<le> 0" by (simp add: int64_min_def)
  then have "wrap64 (int ?pos + int (length v)) = int ?pos + int (length v)"
    using assms(4) unfolding sz by (intro wrap64_id) (simp add: in_int64_def)
  moreover have "take (length v) (drop ?pos data) = v" by (simp add: data_def)
  ultimately show ?thesis
    using tag len lt sz
    by (simp add: emv_turn_def parsed_tag_def Let_def nat_add_distrib flip: of_nat_add)
qed

text \<open>The tags the builder can round-trip: their parts, and the bytes they become.\<close>

fun tags_of :: "(byte list \<times> byte list) list \<Rightarrow> EMVTag list" where
  "tags_of [] = []"
| "tags_of ((tb, v) # ps) = parsed_tag tb v # tags_of ps"

fun tlv :: "(byte list \<times> byte list) list \<Rightarrow> byte list" where
  "tlv [] = []"
| "tlv ((tb, v) # ps) = tb @ build_length (length v) @ v @ tlv ps"

lemma build_tags_of: "build_tags (tags_of ps) = Inr (tlv ps)"
  by (induction ps rule: tags_of.induct) (simp_all add: parsed_tag_def hex_decode_upper)

lemma emv_loop_tlv:
  assumes "\<forall>(tb, v) \<in> set ps. tag_bytes_ok tb \<and> length v < 65536"
    and "int (length (pre @ tlv ps)) \<le> int64_max"
  shows "emv_loop (pre @ tlv ps) (length pre) = Return (tags_of ps)"
  using assms
proof (induction ps arbitrary: pre rule: tags_of.induct)
  case 1
  then show ?case by (simp add: emv_loop.simps)
next
  case (2 tb v ps)
  let ?data = "pre @ tb @ build_length (length v) @ v @ tlv ps"
  let ?pre = "pre @ tb @ build_length (length v) @ v"
  have turn: "emv_turn ?data (length pre) =
      Add (parsed_tag tb v) (length pre + length tb + length (build_length (length v)) + length v)"
    using 2(2,3) by (intro emv_turn_at) simp_all
  have "emv_loop (?pre @ tlv ps) (length ?pre) = Return (tags_of ps)"
    using 2(2,3) by (intro 2(1)) simp_all
  then have tail: "emv_loop ?data (length pre + length tb + length (build_length (length v)) + length v)
      = Return (tags_of ps)" by (simp add: add.assoc)
  have "0 < length (build_length (length v))" by simp
  then have "length pre < length ?data" by simp
  with turn tail show ?case by (simp add: emv_loop.simps [of ?data "length pre"])
qed

text \<open>
  C35. Building and parsing EMV data are inverse: any list of tags whose tag bytes are well-formed
  and whose values are shorter than 64 KiB comes back as it was, in order, names included.
\<close>

theorem emv_roundtrip:
  assumes "\<forall>(tb, v) \<in> set ps. tag_bytes_ok tb \<and> length v < 65536"
  shows "\<exists>h. BuildEMVData (tags_of ps) = Inr h \<and>
    (int (length h) \<le> int64_max \<longrightarrow> ParseEMVData h = Return (Inr (tags_of ps)))"
proof (intro exI conjI impI)
  let ?h = "hex_encode (tlv ps)"
  show "BuildEMVData (tags_of ps) = Inr ?h" by (simp add: BuildEMVData_def build_tags_of)
  assume "int (length ?h) \<le> int64_max"
  then have "emv_loop ([] @ tlv ps) (length []) = Return (tags_of ps)"
    using emv_loop_tlv [OF assms, of "[]"] by simp
  then show "ParseEMVData ?h = Return (Inr (tags_of ps))"
    by (cases "tlv ps") (auto simp: ParseEMVData_def emv_loop.simps [of "[]"])
qed

theorem emv_roundtrip_witness:
  "\<exists>h. BuildEMVData (tags_of [([0x9A], [1, 2, 3])]) = Inr h \<and>
     ParseEMVData h = Return (Inr (tags_of [([0x9A], [1, 2, 3])]))"
proof -
  have "tag_bytes_ok [0x9A]" by (simp add: tag_bytes_ok_def two_byte_tag_def)
  then obtain h where h: "BuildEMVData (tags_of [([0x9A], [1, 2, 3])]) = Inr h"
    "int (length h) \<le> int64_max \<longrightarrow> ParseEMVData h = Return (Inr (tags_of [([0x9A], [1, 2, 3])]))"
    using emv_roundtrip [of "[([0x9A], [1, 2, 3])]"] by auto
  have "h = hex_encode (tlv [([0x9A], [1, 2, 3])])" using h(1) by (simp only: BuildEMVData_def build_tags_of) simp
  then have "int (length h) \<le> int64_max" by (simp add: build_length_def int64_max_def)
  with h show ?thesis by blast
qed

text \<open>
  C36. Where the parser panics: never on fewer than 20 hex digits, but on some input of 20, a
  length field of eight bytes that Go reads as a negative number.
\<close>

theorem emv_panic_boundary:
  "(\<forall>hexData. length hexData < 20 \<longrightarrow> (\<exists>x. ParseEMVData hexData = Return x)) \<and>
   (\<exists>hexData. length hexData = 20 \<and> ParseEMVData hexData = Panic ''slice bounds out of range'')"
  using ParseEMVData_short ParseEMVData_panics
  by (intro conjI allI impI exI [of _ "''9A88FFFFFFFFFFFFFFFF''"]) simp_all

theorem emv_panic_boundary_witness: "\<exists>x. ParseEMVData ''9F2608AABBCCDD'' = Return x"
  using emv_panic_boundary by simp

end
