(* ===== verification/Proccode.thy ===== *)
theory Proccode
  imports Go_Strings
begin

text \<open>
  internal/proccode/proccode.go: processing codes (field 3), six digits made of a transaction
  code and two account types. The lemmas show that parsing and printing invert each other, that
  every code built from well-formed account types is valid and carries the type's transaction
  code, and that the catalogue of types agrees with the function that builds the codes.
\<close>

section \<open>Types and codes\<close>

text \<open>A \<open>TransactionType\<close> is a string in the source, so an unknown one is possible.\<close>

type_synonym TransactionType = string
type_synonym AccountType = string

definition TxPurchase :: TransactionType where "TxPurchase = ''PURCHASE''"
definition TxPurchaseCashback :: TransactionType where "TxPurchaseCashback = ''PURCHASE_CASHBACK''"
definition TxPurchaseReturn :: TransactionType where "TxPurchaseReturn = ''PURCHASE_RETURN''"
definition TxCashWithdrawal :: TransactionType where "TxCashWithdrawal = ''CASH_WITHDRAWAL''"
definition TxCashAdvance :: TransactionType where "TxCashAdvance = ''CASH_ADVANCE''"
definition TxCashDeposit :: TransactionType where "TxCashDeposit = ''CASH_DEPOSIT''"
definition TxBalanceInquiry :: TransactionType where "TxBalanceInquiry = ''BALANCE_INQUIRY''"
definition TxMiniStatement :: TransactionType where "TxMiniStatement = ''MINI_STATEMENT''"
definition TxPayment :: TransactionType where "TxPayment = ''PAYMENT''"
definition TxTransfer :: TransactionType where "TxTransfer = ''TRANSFER''"
definition TxOriginalCredit :: TransactionType where "TxOriginalCredit = ''ORIGINAL_CREDIT''"
definition TxReversal :: TransactionType where "TxReversal = ''REVERSAL''"
definition TxAdjustment :: TransactionType where "TxAdjustment = ''ADJUSTMENT''"
definition TxPreAuth :: TransactionType where "TxPreAuth = ''PREAUTH''"
definition TxPreAuthCompletion :: TransactionType where "TxPreAuthCompletion = ''PREAUTH_COMPLETION''"
definition TxRefund :: TransactionType where "TxRefund = ''REFUND''"
definition TxCardVerification :: TransactionType where "TxCardVerification = ''CARD_VERIFICATION''"
definition TxAccountVerification :: TransactionType where "TxAccountVerification = ''ACCOUNT_VERIFICATION''"

lemmas tx_defs = TxPurchase_def TxPurchaseCashback_def TxPurchaseReturn_def TxCashWithdrawal_def
  TxCashAdvance_def TxCashDeposit_def TxBalanceInquiry_def TxMiniStatement_def TxPayment_def
  TxTransfer_def TxOriginalCredit_def TxReversal_def TxAdjustment_def TxPreAuth_def
  TxPreAuthCompletion_def TxRefund_def TxCardVerification_def TxAccountVerification_def

definition AccDefault :: AccountType where "AccDefault = ''00''"
definition AccSavings :: AccountType where "AccSavings = ''10''"
definition AccChecking :: AccountType where "AccChecking = ''20''"
definition AccCredit :: AccountType where "AccCredit = ''30''"
definition AccUniversal :: AccountType where "AccUniversal = ''40''"
definition AccInvestment :: AccountType where "AccInvestment = ''50''"

text \<open>The \<open>switch\<close> on the type.\<close>

definition tx_code :: "TransactionType \<Rightarrow> string" where
  "tx_code t =
     (if t = TxPurchase then ''00''
      else if t = TxPurchaseCashback then ''09''
      else if t = TxPurchaseReturn then ''20''
      else if t = TxCashWithdrawal then ''01''
      else if t = TxCashAdvance then ''01''
      else if t = TxCashDeposit then ''21''
      else if t = TxBalanceInquiry then ''31''
      else if t = TxMiniStatement then ''38''
      else if t = TxPayment then ''40''
      else if t = TxTransfer then ''40''
      else if t = TxOriginalCredit then ''26''
      else if t = TxReversal then ''02''
      else if t = TxAdjustment then ''02''
      else if t = TxPreAuth then ''00''
      else if t = TxPreAuthCompletion then ''00''
      else if t = TxRefund then ''20''
      else if t = TxCardVerification then ''00''
      else if t = TxAccountVerification then ''93''
      else ''00'')"

definition GetProcessingCode :: "TransactionType \<Rightarrow> AccountType \<Rightarrow> AccountType \<Rightarrow> string" where
  "GetProcessingCode txType fromAcc toAcc =
     (let fromAcc = (if fromAcc = [] then AccDefault else fromAcc);
          toAcc = (if toAcc = [] then AccDefault else toAcc)
      in tx_code txType @ fromAcc @ toAcc)"

definition GetMTIForTransaction :: "TransactionType \<Rightarrow> bool \<Rightarrow> string" where
  "GetMTIForTransaction txType isResponse =
     (if isResponse then (if txType = TxReversal then ''0410'' else ''0110'')
      else if txType = TxReversal then ''0400''
      else if txType = TxBalanceInquiry \<or> txType = TxMiniStatement then ''0100''
      else ''0100'')"

section \<open>Validation and parsing\<close>

record ProcessingCode =
  pc_TransactionType :: string
  pc_FromAccount :: string
  pc_ToAccount :: string

definition ProcessingCode_String :: "ProcessingCode \<Rightarrow> string" where
  "ProcessingCode_String pc = pc_TransactionType pc @ pc_FromAccount pc @ pc_ToAccount pc"

definition ValidateProcessingCode :: "string \<Rightarrow> go_error option" where
  "ValidateProcessingCode code =
     (if length code \<noteq> 6 then Some (Errorf ''processing code must be 6 digits'')
      else if list_ex (\<lambda>c. c < 48 \<or> c > 57) (runes (bytes_of code))
      then Some (Errorf ''processing code must contain only digits'')
      else None)"

definition ParseProcessingCode :: "string \<Rightarrow> go_error + ProcessingCode" where
  "ParseProcessingCode code =
     (case ValidateProcessingCode code of
        Some err \<Rightarrow> Inl err
      | None \<Rightarrow> Inr \<lparr>pc_TransactionType = take 2 code, pc_FromAccount = take 2 (drop 2 code),
                     pc_ToAccount = take 2 (drop 4 code)\<rparr>)"

section \<open>The catalogue\<close>

definition AllTransactionTypes :: "(TransactionType \<times> string \<times> string \<times> bool \<times> bool) list" where
  "AllTransactionTypes =
    [(TxPurchase, ''00'', ''Goods/Services Purchase'', True, True),
     (TxPurchaseCashback, ''09'', ''Purchase with Cashback'', True, True),
     (TxPurchaseReturn, ''20'', ''Purchase Return/Refund'', True, True),
     (TxCashWithdrawal, ''01'', ''Cash Withdrawal'', True, True),
     (TxCashAdvance, ''01'', ''Cash Advance'', True, True),
     (TxCashDeposit, ''21'', ''Cash Deposit'', True, True),
     (TxBalanceInquiry, ''31'', ''Balance Inquiry'', True, True),
     (TxMiniStatement, ''38'', ''Mini Statement'', True, False),
     (TxPayment, ''40'', ''Bill Payment'', True, True),
     (TxTransfer, ''40'', ''Fund Transfer'', True, True),
     (TxOriginalCredit, ''26'', ''Original Credit Transfer'', True, True),
     (TxReversal, ''02'', ''Transaction Reversal'', True, True),
     (TxAdjustment, ''02'', ''Transaction Adjustment'', True, True),
     (TxPreAuth, ''00'', ''Preauthorization'', True, True),
     (TxPreAuthCompletion, ''00'', ''Preauth Completion'', True, True),
     (TxRefund, ''20'', ''Merchandise Refund'', True, True),
     (TxCardVerification, ''00'', ''Card Verification'', True, True),
     (TxAccountVerification, ''93'', ''Account Verification'', True, True)]"

definition descriptions :: "(TransactionType \<times> string) list" where
  "descriptions =
    [(TxPurchase, ''Goods/Services Purchase''), (TxPurchaseCashback, ''Purchase with Cashback''),
     (TxPurchaseReturn, ''Purchase Return/Refund''), (TxCashWithdrawal, ''Cash Withdrawal''),
     (TxCashAdvance, ''Cash Advance''), (TxCashDeposit, ''Cash Deposit''),
     (TxBalanceInquiry, ''Balance Inquiry''), (TxMiniStatement, ''Mini Statement''),
     (TxPayment, ''Bill Payment''), (TxTransfer, ''Fund Transfer''),
     (TxOriginalCredit, ''Original Credit Transfer (OCT)''),
     (TxReversal, ''Transaction Reversal''), (TxAdjustment, ''Transaction Adjustment''),
     (TxPreAuth, ''Preauthorization''), (TxPreAuthCompletion, ''Preauthorization Completion''),
     (TxRefund, ''Merchandise Refund''), (TxCardVerification, ''Card Verification''),
     (TxAccountVerification, ''Account Verification'')]"

definition GetTransactionDescription :: "TransactionType \<Rightarrow> string" where
  "GetTransactionDescription txType =
     (case map_of descriptions txType of Some desc \<Rightarrow> desc | None \<Rightarrow> ''Unknown Transaction Type'')"

section \<open>Lemmas\<close>

lemma ValidateProcessingCode_ok:
  "ValidateProcessingCode code = None \<longleftrightarrow> length code = 6 \<and> ascii_digits code"
proof -
  have "\<not> list_ex (\<lambda>c. c < 48 \<or> c > 57) (runes (bytes_of code)) \<longleftrightarrow> ascii_digits code"
  proof
    assume "\<not> list_ex (\<lambda>c. c < 48 \<or> c > 57) (runes (bytes_of code))"
    then have "\<forall>r \<in> set (runes (bytes_of code)). (48 \<le> r \<and> r \<le> 57) \<and> r < 128"
      by (fastforce simp: list_ex_iff)
    from runes_all_ascii [OF this] show "ascii_digits code"
      by (auto simp: bytes_of_def ascii_digits_def list_all_iff is_digit_byte_def)
  next
    assume d: "ascii_digits code"
    then have "runes (bytes_of code) = bytes_of code"
      by (intro runes_ascii) (auto simp: bytes_of_def ascii_digits_def list_all_iff is_digit_byte_def)
    with d show "\<not> list_ex (\<lambda>c. c < 48 \<or> c > 57) (runes (bytes_of code))"
      by (force simp: bytes_of_def ascii_digits_def list_all_iff list_ex_iff is_digit_byte_def)
  qed
  then show ?thesis by (auto simp: ValidateProcessingCode_def)
qed

lemma ParseProcessingCode_String:
  assumes "ParseProcessingCode code = Inr pc"
  shows "ProcessingCode_String pc = code" "length (pc_TransactionType pc) = 2"
    "length (pc_FromAccount pc) = 2" "length (pc_ToAccount pc) = 2"
proof -
  have v: "ValidateProcessingCode code = None"
    and pc: "pc = \<lparr>pc_TransactionType = take 2 code, pc_FromAccount = take 2 (drop 2 code),
                     pc_ToAccount = take 2 (drop 4 code)\<rparr>"
    using assms by (auto simp: ParseProcessingCode_def split: option.splits)
  have len: "length code = 6" using v by (simp add: ValidateProcessingCode_ok)
  have "take 2 code @ take 2 (drop 2 code) @ drop 4 code = code"
    by (metis append_take_drop_id drop_drop numeral_Bit0 add.commute)
  with len show "ProcessingCode_String pc = code" "length (pc_TransactionType pc) = 2"
    "length (pc_FromAccount pc) = 2" "length (pc_ToAccount pc) = 2"
    by (simp_all add: pc ProcessingCode_String_def)
qed

lemma String_ParseProcessingCode:
  assumes "length (pc_TransactionType pc) = 2" "length (pc_FromAccount pc) = 2"
    "length (pc_ToAccount pc) = 2" "ascii_digits (ProcessingCode_String pc)"
  shows "ParseProcessingCode (ProcessingCode_String pc) = Inr pc"
proof -
  have "ValidateProcessingCode (ProcessingCode_String pc) = None"
    using assms by (simp add: ValidateProcessingCode_ok ProcessingCode_String_def)
  with assms show ?thesis by (simp add: ParseProcessingCode_def ProcessingCode_String_def)
qed

lemma tx_code_digits: "length (tx_code t) = 2 \<and> ascii_digits (tx_code t)"
  by (simp add: tx_code_def is_digit_byte_def)

text \<open>Two-digit account types, or none, give a valid code of the type.\<close>

lemma GetProcessingCode_parses:
  assumes "\<forall>a \<in> {f, t}. a = [] \<or> length a = 2 \<and> ascii_digits a"
  shows "ParseProcessingCode (GetProcessingCode txType f t) =
    Inr \<lparr>pc_TransactionType = tx_code txType,
         pc_FromAccount = (if f = [] then AccDefault else f),
         pc_ToAccount = (if t = [] then AccDefault else t)\<rparr>"
proof -
  let ?pc = "\<lparr>pc_TransactionType = tx_code txType,
         pc_FromAccount = (if f = [] then AccDefault else f),
         pc_ToAccount = (if t = [] then AccDefault else t)\<rparr>"
  have "GetProcessingCode txType f t = ProcessingCode_String ?pc"
    by (simp add: GetProcessingCode_def ProcessingCode_String_def)
  moreover have "ascii_digits (ProcessingCode_String ?pc)"
    using assms tx_code_digits by (auto simp: ProcessingCode_String_def AccDefault_def is_digit_byte_def)
  ultimately show ?thesis
    using String_ParseProcessingCode [of ?pc] assms tx_code_digits by (auto simp: AccDefault_def)
qed

text \<open>Each type occurs once in the catalogue, with the code of its processing codes.\<close>

lemma catalogue_codes:
  "list_all (\<lambda>(t, code, _). tx_code t = code) AllTransactionTypes"
  by (simp add: AllTransactionTypes_def tx_code_def tx_defs)

lemma catalogue_distinct: "distinct (map fst AllTransactionTypes)"
  by (simp add: AllTransactionTypes_def tx_defs)

text \<open>The two texts of a type differ for two of the eighteen types.\<close>

lemma catalogue_descriptions:
  "map fst (filter (\<lambda>(t, _, d, _). GetTransactionDescription t \<noteq> d) AllTransactionTypes) =
     [TxOriginalCredit, TxPreAuthCompletion]"
  by (simp add: AllTransactionTypes_def GetTransactionDescription_def descriptions_def tx_defs)

lemma ParseProcessingCode_valid: "ParseProcessingCode code = Inr pc \<Longrightarrow> ascii_digits code"
  by (simp add: ParseProcessingCode_def ValidateProcessingCode_ok [symmetric] split: option.splits)
    (simp add: ValidateProcessingCode_ok)

text \<open>
  C37. Parsing and printing a processing code are inverse: a text parses to three parts exactly
  when it is six digits, the parts have two characters each, and printing them gives the text
  back.
\<close>

theorem processing_code_roundtrip:
  "ParseProcessingCode code = Inr pc \<longleftrightarrow>
     ProcessingCode_String pc = code \<and> ascii_digits code \<and> length (pc_TransactionType pc) = 2 \<and>
     length (pc_FromAccount pc) = 2 \<and> length (pc_ToAccount pc) = 2"
  using ParseProcessingCode_String [of code pc] String_ParseProcessingCode [of pc]
    ParseProcessingCode_valid [of code pc] by auto

end
