(* ===== verification/Spec2Isabelle.thy ===== *)
theory Spec2Isabelle
  imports End_To_End Network_Ledger Examples Startup Router Migrate Scheme_Codes Scheme_Emv Proccode Limiter Switch_Mux
    Spec_Loader
begin

text \<open>
  \<^bold>\<open>paymentlab: a card acquirer and a card issuer over ISO 8583\<close>

  The program is two Go services. The acquirer (cmd/acquirer) takes transactions as JSON over
  HTTP, packs them into ISO 8583 messages, multiplexes them over a few TCP connections to the
  issuer, and answers with what comes back; it also administers cards. The issuer (cmd/issuer)
  reads the messages from its connections, authorizes them against the card table in PostgreSQL
  and writes the answers. Both keep an audit table of the transactions they saw. This development
  models both services from the bound HTTP request to the rows of the tables, and proves what they
  promise: that money moves exactly as answered, that no answer reaches the wrong caller, that
  the bounded resources stay within their bounds, and that the codecs invert each other.

  \<^bold>\<open>Reading guide\<close>

  Go values. A Go string is a sequence of bytes (\<open>string\<close>, characters read as bytes); \<open>int\<close> and
  \<open>int64\<close> values are integers with \<open>wrap64\<close> where the code computes with them and \<open>in_int64\<close> where
  a column or a type bounds them; \<open>uint16\<close> and \<open>uint32\<close> values and bytes are words. An \<open>error\<close> is a
  \<open>go_error\<close> (text, or a text wrapping another), a fallible call answers \<open>Inl error\<close> or \<open>Inr value\<close>,
  a call that may panic an \<open>outcome\<close>, and a pointer that may be nil an option. State is passed
  explicitly; concurrency is a step relation with one step per atomic action (\<open>inductive\<close>), and a
  theorem about it is about every run.

  Environment. What the code does not decide is an argument: the clock, random bytes, the fate of
  a database statement (\<open>query_env\<close>: it runs; it fails without effect; it runs and its reply is
  lost), dialling, reading and writing a connection, environment variables, JSON binding.

  \<^bold>\<open>Theories\<close>

  \<^item> \<open>Prelude\<close>, \<open>Go_Strings\<close>, \<open>Go_Hex\<close>, \<open>Go_Sha256\<close>: types, errors, rewrite collections, and the
    parts of Go's standard library the program calls (UTF-8 ranging, \<open>TrimSpace\<close>, \<open>Atoi\<close>,
    \<open>encoding/hex\<close>, SHA-256).
  \<^item> \<open>Util\<close> (internal/util): \<open>MaskPAN\<close>, \<open>ParseAmount12\<close>.
  \<^item> \<open>Iso\<close>, \<open>Spec_Loader\<close> (internal/iso): the message record, the codec over the parameter
    \<open>iso_lib\<close>, and the loading of the field specification.
  \<^item> \<open>Store\<close>, \<open>Sql\<close>, \<open>Card_Repo\<close>, \<open>Tx_Repo\<close>, \<open>Migrate\<close> (internal/store): rows, the interface
    \<open>CardStore\<close>, the SQL statements as functions on lists of rows, the repositories' methods and
    the migration runner.
  \<^item> \<open>Auth_Rules\<close>, \<open>Auth_Engine\<close>, \<open>Auth_Ledger\<close> (internal/auth): response codes, expiry dates, the
    engine over any \<open>CardStore\<close>, and its effect on the ledger of balances.
  \<^item> \<open>Luhn\<close>, \<open>Card_Service\<close> (internal/card): the check digit and the administration of cards.
  \<^item> \<open>Concurrent\<close>: all operations on the card table at once, one database statement per step.
  \<^item> \<open>Audit_Log\<close>: the bounded audit channel and its workers, for both services.
  \<^item> \<open>Issuer_Service\<close>, \<open>Tpdu\<close>, \<open>Issuer_Server\<close> (internal/issuer): one request, the framing of the
    TCP link from both ends, and the connections over the shared worker pool.
  \<^item> \<open>Switch\<close>, \<open>Switch_Mux\<close>, \<open>Limiter\<close>, \<open>Http_Server\<close>, \<open>Router\<close> (internal/acquirer): the
    connection pool, sending with retries and listening; calls, correlation ids and routing; the
    concurrency limit; the handlers and the routes.
  \<^item> \<open>Scheme_Bin\<close>, \<open>Scheme_Codes\<close>, \<open>Scheme_Emv\<close> (internal/scheme) and \<open>Proccode\<close>
    (internal/proccode): number ranges, response texts, EMV data and processing codes.
  \<^item> \<open>Telemetry\<close> (internal/otel): initialisation and the transaction metrics.
  \<^item> \<open>Startup\<close> (cmd, internal/config, store construction): what each \<open>main\<close> builds and which
    failure ends it.
  \<^item> \<open>Issuer_Ledger\<close>: the money behind a whole run of the issuer's server.
  \<^item> \<open>Streams\<close>, \<open>Network\<close>, \<open>Network_Ledger\<close>: switch, server and the byte streams of the connections
    between them as one concurrent system, and the money behind a run of it.
  \<^item> \<open>End_To_End\<close> composes handler, switch, server, engine and table for one transaction;
    \<open>Examples\<close> has the concrete data of the witnesses; this theory states the properties that span
    components.

  \<^bold>\<open>Interfaces\<close>

  A locale states what a client relies on, its lemmas are proved under it, and an interpretation
  discharges it on the model's own definitions: \<open>card_store\<close> (the engine and the server; \<open>pg\<close> in
  \<open>Card_Repo\<close>), its extension \<open>card_admin\<close> (the administration; \<open>pga\<close> in \<open>Card_Service\<close>),
  \<open>audit_store\<close> (the audit workers; \<open>acq_audit\<close> and \<open>iss_audit\<close> in \<open>Tx_Repo\<close>), and \<open>issuer_link\<close>
  (the transaction handler; \<open>link\<close> in \<open>Http_Server\<close>).

  \<^bold>\<open>What is shown\<close>

  \<^item> Money. The engine refines an abstract ledger (\<open>move\<close>) under every failure of the database; the
    response code of each branch is a function of the stored row; balances over sequences of
    requests are accounted for exactly; nothing is overdrawn, also when all operations interleave
    statement by statement; the engine's operations are atomic in that interleaving.
  \<^item> Answers. A response reaches the call whose correlation id it carries; over the concurrent
    network a call gets the issuer's answer to its own request, its request is handled at most once,
    and the ledger is that of the calls; audit records say what was answered, and every record is
    accounted for, the dropped ones too.
  \<^item> Bounds. The limiter, the worker pool, the audit channel and the pending map keep their bounds
    and give every place back; store construction leaks no pool.
  \<^item> Codecs. TPDU frames, EMV data, processing codes and field 4 round trip, with the exact limits, and
    so does the message codec over a library that does (\<open>pack_parse\<close>); number ranges, expiry dates and the check digit agree with independent
    specifications.
  \<^item> Behaviour that is likely not intended is stated as what it is: a deadline inside a frame loses
    its bytes, an update undoes a concurrent debit, an EMV length makes the parser panic, a request
    too long for its length field is read as two.

  \<^bold>\<open>Loops, bounds and fuel\<close>

  Loops over data are structural or have a measure. Loops that wait carry fuel, with a theorem that
  it is enough: 62 rounds for the database (half a second each, 30 s deadline), 51 for the switch
  (200 ms each, 10 s). \<open>sendToIssuer\<close> makes three attempts; \<open>read_packets\<close>, \<open>read_jobs\<close> and
  \<open>listen_frames\<close> look at as many frames as their fuel says and are used with one more than the
  stream holds. The audit channel holds 1000 records and has three workers.

  \<^bold>\<open>Assumptions\<close>

  \<^item> moov-io/iso8583 is the parameter \<open>iso_lib\<close>. Theorems that need it assume \<open>iso_lib_faithful\<close> (it
    unpacks what it packed) and \<open>lib_fits\<close> (a packed message is shorter than 65531 bytes).
  \<^item> A SQL statement is atomic and serial. Syntax errors of an id and column widths appear as
    statements that fail without effect.
  \<^item> A connection delivers the bytes written to it in order, or breaks and loses some of the last
    ones; it does not double or invent any. A write that reports an error delivered less than a
    whole frame, and its connection carries nothing more.
  \<^item> In the network every request is shorter than 65531 bytes (\<open>fits_frame\<close>), as the fields the
    handler sets are; a listener's read deadline does not fall inside a frame.
  \<^item> C1 and C2 speak of one transaction with the card table to itself.

  \<^bold>\<open>Not modelled\<close>

  gin, pgx, net and the OpenTelemetry SDK behind the values they give the code; log lines and
  spans; the web pages and their JavaScript; the SQL of the migration scripts beyond the
  constraints the statements use; tests, containers and documentation. \<open>recordHealthMetrics\<close>
  (internal/acquirer/http.go) is called by nothing.
\<close>

section \<open>A transaction from the terminal to the card table\<close>

text \<open>
  C1. A transaction the client sees completed (HTTP 200 with a message) did to the money exactly
  what its response code says: approved, the card's balance moved by the requested amount;
  declined, nothing moved; only a system malfunction leaves both possible. The answer is the one
  for this request (trace number, card number and amount are the request's), and the card table
  stays well-formed, whatever the connections, the clocks and the databases do. The statement is
  about one transaction with the store to itself; interleaving is the subject of C8 to C13.
\<close>

theorem transaction_end_to_end:
  assumes "iso_lib_faithful lib" "lib_fits lib" "table_ok (card_table st)"
    and "transact lib env (Some req) st = ((200, JAnswer hq hr m), st')"
  shows "table_ok (card_table st') \<and>
    moves_as_answered (balances (card_table st)) req (RespCode m) (balances (card_table st')) \<and>
    STAN m = STAN req \<and> PAN m = PAN req \<and> AmountTrn m = AmountTrn req"
  using assms by (rule transact_answered)

theorem transaction_end_to_end_witness:
  "\<exists>st'. transact ex_lib ex_link (Some ex_purchase) ex_start =
     ((200, JAnswer ex_req_hex ex_resp_hex ex_response), st') \<and>
     balances (card_table st') ex_pan = Some 8500"
proof -
  obtain st' where run: "transact ex_lib ex_link (Some ex_purchase) ex_start =
     ((200, JAnswer ex_req_hex ex_resp_hex ex_response), st')" using ex_transaction by blast
  have "card_table ex_start = ex_table" by (simp add: ex_start_def card_table_def)
  with transaction_end_to_end [OF ex_lib_ok _ run]
  have "moves_as_answered (balances ex_table) ex_purchase ''00'' (balances (card_table st'))"
    by (simp add: ex_response_def)
  then show ?thesis using run
    by (simp add: moves_as_answered_def requested_def RespApproved_def move_def)
qed

text \<open>
  C2. A transaction that ends any other way (a timeout, a lost connection, an answer that cannot
  be read, a refused call) moved the whole requested amount on the request's card or nothing:
  never a part of it, never twice, never on another card.
\<close>

theorem transaction_all_or_nothing:
  assumes "iso_lib_faithful lib" "lib_fits lib" "table_ok (card_table st)"
    and "transact lib env (Some req) st = (x, st')"
  shows "table_ok (card_table st') \<and>
    (balances (card_table st') = balances (card_table st) \<or>
     balances (card_table st') = move (balances (card_table st)) (PAN req) (requested req))"
  using assms by (rule transact_any)

theorem transaction_all_or_nothing_witness:
  "balances (card_table (snd (transact ex_lib (ex_link\<lparr>le_dropped := True\<rparr>) (Some ex_purchase) ex_start))) ex_pan
     \<in> {Some 10000, Some 8500}"
proof -
  let ?env = "ex_link\<lparr>le_dropped := True\<rparr>"
  have "card_table ex_start = ex_table" by (simp add: ex_start_def card_table_def)
  with transaction_all_or_nothing [OF ex_lib_ok _ surjective_pairing,
      where st = ex_start and env = ?env and req = ex_purchase]
  have "balances (card_table (snd (transact ex_lib ?env (Some ex_purchase) ex_start)))
      \<in> {balances ex_table, move (balances ex_table) ex_pan (- 1500)}"
    by (simp add: requested_def)
  then show ?thesis by (elim insertE emptyE) (simp_all add: move_def)
qed

section \<open>What the issuer decides\<close>

text \<open>
  C3. A purchase (any request that is not a reversal) with the database up is answered by the
  stored card alone: 96 for an amount of zero, 14 for an unknown card, 78 for a card that is not
  active, 00 when the balance covers the amount, and otherwise 54 or 51 by the expiry date. The
  balance goes down by the amount when the answer is 00, and nothing moves otherwise.
\<close>

theorem purchase_decides:
  assumes "table_ok t" "db_up env" "\<not> is_reversal req" "ParseAmount12 (AmountTrn req) = Inr a"
  shows "code_of (fst (Authorize postgres_cards env (Some req) t)) =
      purchase_code (ae_now env) (row_by_pan (PAN req) t) a \<and>
    balances (snd (Authorize postgres_cards env (Some req) t)) =
      (if purchase_code (ae_now env) (row_by_pan (PAN req) t) a = RespApproved
       then move (balances t) (PAN req) (- a) else balances t)"
proof -
  have no_lost: "no_lost_reply env" using assms(2) by (simp add: db_up_def no_lost_reply_def)
  have req: "requested req = - a" using assms(3,4) by (simp add: requested_def)
  show ?thesis
    using purchase_branches [OF assms] pg.authorize_money [OF assms(1), of env req]
      malfunction_moves_nothing [OF assms(1) no_lost, of req]
    by (auto simp: moves_as_answered_def req)
qed

theorem purchase_decides_witness:
  "code_of (fst (Authorize postgres_cards ex_env (Some ex_purchase) ex_table)) = ''00'' \<and>
   balances (snd (Authorize postgres_cards ex_env (Some ex_purchase) ex_table)) ex_pan = Some 8500"
proof -
  have "purchase_code (ae_now ex_env) (row_by_pan ex_pan ex_table) 1500 = RespApproved"
    by (simp add: purchase_code_def) (simp add: ex_card_def)
  then show ?thesis
    using purchase_decides [of ex_table ex_env ex_purchase 1500] by (simp add: resp_codes move_def)
qed

text \<open>
  C4. A reversal with the database up credits the amount and answers 00 for any card in the table
  when the amount is positive and the new balance fits the column, whatever the card's status and
  whether or not a purchase preceded it; otherwise it answers 96 and moves nothing.
\<close>

theorem reversal_decides:
  assumes "table_ok t" "db_up env" "is_reversal req" "ParseAmount12 (AmountTrn req) = Inr a"
  shows "code_of (fst (Authorize postgres_cards env (Some req) t)) =
      reversal_code (row_by_pan (PAN req) t) a \<and>
    balances (snd (Authorize postgres_cards env (Some req) t)) =
      (if reversal_code (row_by_pan (PAN req) t) a = RespApproved
       then move (balances t) (PAN req) a else balances t)"
  using reversal_branches [OF assms] by simp

theorem reversal_decides_witness:
  "code_of (fst (Authorize postgres_cards ex_env (Some ex_reversal) ex_table)) = ''00'' \<and>
   balances (snd (Authorize postgres_cards ex_env (Some ex_reversal) ex_table)) ex_pan = Some 11500"
proof -
  have "reversal_code (row_by_pan ex_pan ex_table) 1500 = RespApproved"
    by (simp add: reversal_code_def) (simp add: ex_card_def in_int64_def int64_min_def int64_max_def)
  then show ?thesis
    using reversal_decides [of ex_table ex_env ex_reversal 1500] by (simp add: resp_codes move_def)
qed

text \<open>
  C5. Whatever fails (no connection, a statement that never ran, a committed statement whose
  reply was lost), the engine's answer and the money agree: code 00 means the whole requested
  movement happened, every other code but 96 that nothing did, and 96 one of the two. No request
  changes which cards are active. This is the engine's refinement of the abstract ledger.
\<close>

theorem authorize_moves_as_answered:
  assumes "table_ok t"
  shows "table_ok (snd (Authorize postgres_cards env (Some req) t)) \<and>
    is_active (snd (Authorize postgres_cards env (Some req) t)) = is_active t \<and>
    moves_as_answered (balances t) req (code_of (fst (Authorize postgres_cards env (Some req) t)))
      (balances (snd (Authorize postgres_cards env (Some req) t)))"
  using assms by (rule pg.authorize_money)

theorem authorize_moves_as_answered_witness:
  "moves_as_answered (balances ex_table) ex_purchase
     (code_of (fst (Authorize postgres_cards (ex_env\<lparr>ae_q1 := ex_q\<lparr>q_fault := LostReply (Errorf [])\<rparr>\<rparr>)
        (Some ex_purchase) ex_table)))
     (balances (snd (Authorize postgres_cards (ex_env\<lparr>ae_q1 := ex_q\<lparr>q_fault := LostReply (Errorf [])\<rparr>\<rparr>)
        (Some ex_purchase) ex_table)))"
  using authorize_moves_as_answered [of ex_table] by simp

section \<open>Sequences of requests\<close>

text \<open>
  C6. When no reply of the database is lost, the ledger after any sequence of requests is exactly
  the one before plus, on each card, the credits of the approved reversals and minus the amounts
  of the approved purchases: nothing is lost, duplicated or moved by a declined request.
\<close>

theorem ledger_exact:
  assumes "table_ok t" "\<forall>er \<in> set reqs. no_lost_reply (fst er)"
    "run_requests postgres_cards reqs t = (codes, u)"
  shows "table_ok u \<and> (\<forall>p. balances u p = map_option (\<lambda>b. b + net_movement p
      (zip (map snd reqs) (zip codes (replicate (length reqs) False)))) (balances t p))"
  using assms by (rule run_exact)

theorem ledger_exact_witness:
  "\<exists>codes u. run_requests postgres_cards [(ex_env, ex_purchase), (ex_env, ex_reversal)] ex_table = (codes, u) \<and>
     table_ok u \<and> balances u ex_pan = Some (10000 + net_movement ex_pan
       (zip [ex_purchase, ex_reversal] (zip codes [False, False])))"
proof -
  obtain codes u where run: "run_requests postgres_cards
      [(ex_env, ex_purchase), (ex_env, ex_reversal)] ex_table = (codes, u)" by fastforce
  from ledger_exact [OF ex_table_ok _ run] show ?thesis using run by simp
qed

text \<open>
  C7. With lost replies the same account holds once each request answered 96 is given a flag: the
  balances are the old ones plus the approved movements and those of the flagged requests, so a
  lost reply can only hide a movement behind code 96, never change an amount or a card.
\<close>

theorem ledger_conserved:
  assumes "table_ok t" "run_requests postgres_cards reqs t = (codes, u)"
  shows "table_ok u \<and> is_active u = is_active t \<and>
    (\<exists>lost. lost_only_on_malfunction codes lost \<and> length codes = length reqs \<and>
       (\<forall>p. balances u p =
          map_option (\<lambda>b. b + net_movement p (zip (map snd reqs) (zip codes lost))) (balances t p)))"
  using assms by (rule pg.run_conserves)

theorem ledger_conserved_witness:
  "\<exists>codes u. run_requests postgres_cards [(ex_env, ex_purchase), (ex_env, ex_reversal)] ex_table = (codes, u) \<and>
     is_active u ex_pan \<and> length codes = 2"
proof -
  obtain codes u where run: "run_requests postgres_cards
      [(ex_env, ex_purchase), (ex_env, ex_reversal)] ex_table = (codes, u)" by fastforce
  have "is_active ex_table ex_pan" by (simp add: is_active_def) (simp add: ex_card_def)
  with ledger_conserved [OF ex_table_ok run] have "is_active u ex_pan \<and> length codes = 2" by auto
  with run show ?thesis by blast
qed

text \<open>
  C9. The issuer's ledger under load: after any run of the server, with any number of connections
  and workers, every balance is the one before plus the amounts of the handled requests that were
  approved, and of those whose database reply was lost; the requests are counted in the order they
  were handled, whether or not their answer got back, and an answered one by the code it was
  answered with.
\<close>

theorem issuer_ledger:
  assumes "server_run lib postgres_cards cap st0 evs s" "table_ok (is_store st0)"
  shows "table_ok (is_store (sv_issuer s)) \<and>
    (\<exists>codes lost. list_all2 code_agrees (handled lib evs) codes \<and> lost_only_on_malfunction codes lost \<and>
       (\<forall>p. balances (is_store (sv_issuer s)) p = map_option
          (\<lambda>b. b + net_movement p (zip (map fst (handled lib evs)) (zip codes lost)))
          (balances (is_store st0) p)))"
  using assms by (rule pg.server_ledger)

theorem issuer_ledger_witness:
  "\<exists>s. server_run ex_lib postgres_cards 1 \<lparr>is_store = ex_table, is_audit = []\<rparr> ex_events s \<and>
     balances (is_store (sv_issuer s)) ex_pan = Some 8500"
proof -
  obtain s where r: "server_run ex_lib postgres_cards 1 \<lparr>is_store = ex_table, is_audit = []\<rparr> ex_events s"
    using ex_server by blast
  have h: "handled ex_lib ex_events = [(ex_purchase, Some ''00'')]"
    by (simp add: ex_events_def ex_job_def ex_parse ex_response_def)
  obtain codes lost where c: "list_all2 code_agrees [(ex_purchase, Some ''00'')] codes"
    "lost_only_on_malfunction codes lost"
    "balances (is_store (sv_issuer s)) ex_pan =
       map_option (\<lambda>b. b + net_movement ex_pan (zip [ex_purchase] (zip codes lost))) (balances ex_table ex_pan)"
    using issuer_ledger [OF r] unfolding h by auto
  then have codes: "codes = [''00'']" by (auto simp: list_all2_Cons1 code_agrees_def)
  obtain l where "lost = [l]" using c(2) codes by (cases lost rule: list.exhaust; cases "tl lost") auto
  with c(3) codes have "balances (is_store (sv_issuer s)) ex_pan = Some 8500"
    by (simp add: requested_def RespApproved_def)
  with r show ?thesis by blast
qed

section \<open>The issuer's server\<close>

text \<open>
  C20. Admission: at most as many jobs run as the pool has places, over all connections, and every
  place is given back exactly once: the admissions so far are the jobs that are over, whichever
  way they ended, and those still in the pool.
\<close>

theorem worker_places:
  assumes "server_run lib ops cap st0 evs s"
  shows "length (sv_pool s) \<le> cap \<and>
    length (filter enters evs) = length (filter leaves evs) + length (sv_pool s)"
  using server_run_bound [OF assms] server_run_places [OF assms] by blast

theorem worker_places_witness:
  "\<exists>s. server_run ex_lib postgres_cards 1 \<lparr>is_store = ex_table, is_audit = []\<rparr> ex_events s \<and> sv_pool s = []"
proof -
  obtain s where r: "server_run ex_lib postgres_cards 1 \<lparr>is_store = ex_table, is_audit = []\<rparr> ex_events s"
    using ex_server by blast
  have "filter enters ex_events = [Admitted ex_job]" "length (filter leaves ex_events) = 1"
    by (simp_all add: ex_events_def enters_def leaves_def)
  with worker_places [OF r] have "sv_pool s = []" by simp
  with r show ?thesis by blast
qed

section \<open>Audit\<close>

text \<open>
  C22. The record the issuer offers to its audit channel tells the truth about the answer it sends:
  the status is APPROVED exactly for code 00, the response code is the one sent, an authorization
  code is recorded exactly for approvals and is the one sent, a decline reason exactly for the
  others, and the card number only in masked form.
\<close>

theorem audit_record_truthful:
  assumes "HandleHex lib (Some ops) env hexReq st = (Inr (hexResp, resp), st')"
    and "length (is_audit st) < audit_capacity"
  shows "\<exists>req dec tx. ParseHexToMessage lib hexReq = Inr req \<and> is_audit st' = is_audit st @ [tx] \<and>
    tx = issuer_tx req resp (Some dec) \<and>
    (it_Status tx = ''APPROVED'' \<longleftrightarrow> RespCode resp = RespApproved) \<and>
    it_ResponseCode tx = Some (RespCode resp) \<and>
    it_AuthCode tx = (if RespCode resp = RespApproved then Some (AuthRespID resp) else None) \<and>
    (it_DeclineReason tx = None \<longleftrightarrow> RespCode resp = RespApproved) \<and>
    it_PANMasked tx = MaskPAN (PAN req)"
proof -
  obtain req where req: "ParseHexToMessage lib hexReq = Inr req"
    using assms(1) by (cases "ParseHexToMessage lib hexReq") (auto simp: HandleHex_unparsed)
  obtain resp' dec where a: "answers env req resp' dec"
    and h: "HandleHex lib (Some ops) env hexReq st =
       (let st' = st\<lparr>is_store := snd (Authorize ops env (Some req) (is_store st))\<rparr> in
        case PackMessageToHex lib (Some resp') of
          Inl e \<Rightarrow> (Inl (Wrapf ''pack response'' e), st')
        | Inr hexResp \<Rightarrow> (Inr (hexResp, resp'),
            st'\<lparr>is_audit := audit_offer (issuer_tx req resp' (Some dec)) (is_audit st)\<rparr>))"
    by (rule HandleHex_parsed [OF req])
  have "resp' = resp" "is_audit st' = audit_offer (issuer_tx req resp (Some dec)) (is_audit st)"
    using assms(1) h by (auto simp: Let_def split: sum.splits)
  then show ?thesis
    using issuer_tx_truthful [of env req resp dec] a assms(2) req
    by (intro exI [of _ req] exI [of _ dec] exI [of _ "issuer_tx req resp (Some dec)"])
      (simp add: audit_offer_def)
qed

theorem audit_record_truthful_witness:
  "\<exists>st' tx. HandleHex ex_lib (Some postgres_cards) ex_env ex_req_hex \<lparr>is_store = ex_table, is_audit = []\<rparr> =
     (Inr (ex_resp_hex, ex_response), st') \<and> is_audit st' = [tx] \<and> it_Status tx = ''APPROVED''"
proof -
  obtain st' where h: "HandleHex ex_lib (Some postgres_cards) ex_env ex_req_hex
      \<lparr>is_store = ex_table, is_audit = []\<rparr> = (Inr (ex_resp_hex, ex_response), st')"
    using ex_handled by blast
  have "RespCode ex_response = RespApproved" by (simp add: ex_response_def RespApproved_def)
  with audit_record_truthful [OF h] h show ?thesis by (auto simp: audit_capacity_def)
qed

section \<open>Administration of cards\<close>

text \<open>
  C30. Creating a card appends one row to the table or leaves it as it is. The row is for the number
  of the request without its blanks, which passes the check digit and which no row had before; it
  is ACTIVE with the requested balance, and no other row, balance or state changes. The answer is
  that row; an error means that nothing was created, unless the reply of the insertion was lost.
\<close>

theorem create_card:
  assumes "table_ok t" "in_int64 (cr_AvailableBalance req)"
    and "CreateCard_service postgres_cards q req t = (x, u)"
  shows "table_ok u \<and>
    (u = t \<and> (\<exists>e. x = Inl e) \<or>
     (\<exists>c. c_PAN c = remove_blanks (trim_space (cr_PAN req)) \<and> luhnValid (c_PAN c) \<and>
        c_Status c = ''ACTIVE'' \<and> c_AvailableBalance c = cr_AvailableBalance req \<and>
        row_by_pan (c_PAN c) t = None \<and> u = t @ [c] \<and>
        balances u = (balances t)(c_PAN c \<mapsto> cr_AvailableBalance req) \<and>
        is_active u = (is_active t)(c_PAN c := True) \<and>
        (x = Inr (card_response c) \<or> reply_lost q x)))"
  using assms by (rule create_card_rows)

theorem create_card_witness:
  "\<exists>resp c. CreateCard_service postgres_cards ex_q ex_create ex_other = (Inr resp, ex_other @ [c]) \<and>
     c_PAN c = ex_pan \<and> c_AvailableBalance c = 700"
proof -
  obtain resp u where c: "CreateCard_service postgres_cards ex_q ex_create ex_other = (Inr resp, u)"
    using ex_created by blast
  have "in_int64 (cr_AvailableBalance ex_create)" "cr_AvailableBalance ex_create = 700"
    "cr_PAN ex_create = ex_pan"
    by (simp_all add: ex_create_def in_int64_def int64_min_def int64_max_def)
  with create_card [OF ex_other_ok _ c] c show ?thesis by (auto simp: ex_pan_ok)
qed

text \<open>
  C31. A top-up that answers with the card has added the amount, which is positive, to that card
  and to nothing else, and the balance it answers with is the new one. A top-up that fails has
  added nothing, or the whole amount to one card when only the answer was lost.
\<close>

theorem top_up:
  assumes "table_ok t"
  shows "case TopUp postgres_cards q q' i amount t of
      (Inr resp, u) \<Rightarrow> 0 < amount \<and> table_ok u \<and>
        balances u = move (balances t) (cp_PAN resp) amount \<and>
        balances u (cp_PAN resp) = Some (cp_AvailableBalance resp)
    | (Inl e, u) \<Rightarrow> table_ok u \<and>
        (balances u = balances t \<or> (\<exists>p. 0 < amount \<and> balances u = move (balances t) p amount))"
proof (cases "TopUp postgres_cards q q' i amount t")
  case (Pair x u)
  with pga.topup_money [OF assms, of q q' i amount _ u] pga.topup_failed [OF assms, of q q' i amount _ u]
  show ?thesis by (cases x) auto
qed

theorem top_up_witness:
  "\<exists>resp u. TopUp postgres_cards ex_q ex_q ''c1'' 500 ex_table = (Inr resp, u) \<and>
     balances u (cp_PAN resp) = Some (cp_AvailableBalance resp)"
proof -
  obtain resp u where t: "TopUp postgres_cards ex_q ex_q ''c1'' 500 ex_table = (Inr resp, u)"
    using ex_topped_up by blast
  with top_up [OF ex_table_ok, where q = ex_q and q' = ex_q and i = "''c1''" and amount = 500] show ?thesis by auto
qed

text \<open>
  C32. An update rewrites the row of the requested id or leaves the table as it is. The row becomes
  the merge of what was read and what the request sets, with the balance as it was when the request
  sets none and nothing else runs in between; it keeps its id and its number, and every other row
  stays as it is. The answer is the merged card; an error means that nothing was written, unless
  the reply of the update was lost.
\<close>

theorem update_card:
  assumes "table_ok t" "\<forall>b. ur_AvailableBalance req = Some b \<longrightarrow> in_int64 b"
    and "UpdateCard_service postgres_cards q q' i req t = (x, u)"
  shows "table_ok u \<and>
    (u = t \<and> (\<exists>e. x = Inl e) \<or>
     (\<exists>c d. row_by_id i t = Some c \<and> merged_card c req = Inr d \<and> c_ID d = i \<and> c_PAN d = c_PAN c \<and>
        c_AvailableBalance d = (case ur_AvailableBalance req of None \<Rightarrow> c_AvailableBalance c | Some b \<Rightarrow> b) \<and>
        row_by_id i u = Some (d\<lparr>c_UpdatedAt := q_now q'\<rparr>) \<and>
        (\<forall>j. j \<noteq> i \<longrightarrow> row_by_id j u = row_by_id j t) \<and>
        balances u = (balances t)(c_PAN c \<mapsto> c_AvailableBalance d) \<and>
        is_active u = (is_active t)(c_PAN c := (c_Status d = ''ACTIVE'')) \<and>
        (x = Inr (card_response d) \<or> reply_lost q' x)))"
  using assms by (rule update_card_rows)

theorem update_card_witness:
  "\<exists>resp u. UpdateCard_service postgres_cards ex_q ex_q ''c1'' ex_freeze ex_table = (Inr resp, u) \<and>
     balances u = balances ex_table \<and> \<not> is_active u ex_pan"
proof -
  obtain resp u where t: "UpdateCard_service postgres_cards ex_q ex_q ''c1'' ex_freeze ex_table = (Inr resp, u)"
    using ex_updated by blast
  have none: "ur_AvailableBalance ex_freeze = None" by (simp add: ex_freeze_def)
  have pan: "c_PAN ex_card = ex_pan" "c_AvailableBalance ex_card = 10000" by (simp_all add: ex_card_def)
  from update_card [OF ex_table_ok _ t] none obtain d where d: "merged_card ex_card ex_freeze = Inr d"
    "balances u = (balances ex_table)(ex_pan \<mapsto> 10000)"
    "is_active u = (is_active ex_table)(ex_pan := (c_Status d = ''ACTIVE''))"
    by (auto simp: pan)
  have "d = ex_card\<lparr>c_Status := ''FROZEN''\<rparr>" using d(1) ex_frozen by simp
  then have "c_Status d = ''FROZEN''" by simp
  with d(3) have "\<not> is_active u ex_pan" by simp
  moreover have "balances u = balances ex_table" using d(2) by (simp add: map_upd_triv)
  ultimately show ?thesis using t by blast
qed

text \<open>
  C33. After a card is deleted no purchase on it is approved and none moves money, whatever the
  database does: deleting keeps the row and its balance but takes the card out of use at once.
\<close>

theorem deleted_card_declined:
  assumes "table_ok t" "GetCardByID q i t = (Inr (Some c), t')"
    and "DeleteCard_service postgres_cards q' i t = (Inr (), u)"
    and "\<not> is_reversal req" "PAN req = c_PAN c"
  shows "balances u = balances t \<and>
    code_of (fst (Authorize postgres_cards env (Some req) u)) \<noteq> RespApproved \<and>
    balances (snd (Authorize postgres_cards env (Some req) u)) = balances t"
proof -
  have "cs_GetCardByID postgres_cards q i t = (Inr (Some c), t')" using assms(2) by (simp add: postgres_cards_def)
  from pga.delete_freezes [OF assms(1) this assms(3)]
  have "table_ok u" "balances u = balances t" "\<not> is_active u (PAN req)" using assms(5) by simp_all
  with pg.inactive_purchase [OF _ assms(4)] show ?thesis by metis
qed

theorem deleted_card_declined_witness:
  "\<exists>u. DeleteCard_service postgres_cards ex_q ''c1'' ex_table = (Inr (), u) \<and>
     code_of (fst (Authorize postgres_cards ex_env (Some ex_purchase) u)) \<noteq> ''00''"
proof -
  obtain u where d: "DeleteCard_service postgres_cards ex_q ''c1'' ex_table = (Inr (), u)"
    using ex_deleted by blast
  have "PAN ex_purchase = c_PAN ex_card" by (simp add: ex_card_def)
  from deleted_card_declined [OF ex_table_ok ex_get d _ this] d show ?thesis
    by (auto simp: RespApproved_def)
qed

text \<open>
  C34. The read and the write of an update are two statements: a debit that commits between them
  is undone, although the request does not mention the balance. After the debit the card has the
  balance less the amount; after the update's write it has the old balance again.
\<close>

theorem update_undoes_debit:
  assumes "table_ok t" "GetCardByID q i t = (Inr (Some c), t')" "merged_card c req = Inr d"
    and "ur_AvailableBalance req = None"
    and "AuthorizeAndDebit q2 (c_PAN c) a t = (Inr (Some r), u)" "r_Debited r"
    and "UpdateCard q3 d u = (Inr e, v)"
  shows "0 < a \<and> balances u (c_PAN c) = Some (c_AvailableBalance c - a) \<and>
    balances v (c_PAN c) = Some (c_AvailableBalance c)"
  using assms by (rule update_after_debit)

theorem update_undoes_debit_witness:
  "\<exists>r u e v. AuthorizeAndDebit ex_q ex_pan 1500 ex_table = (Inr (Some r), u) \<and> r_Debited r \<and>
     UpdateCard ex_q (ex_card\<lparr>c_Scheme := ''MC''\<rparr>) u = (Inr e, v) \<and>
     balances u ex_pan = Some 8500 \<and> balances v ex_pan = Some 10000"
proof -
  have pan: "c_PAN ex_card = ex_pan" "c_AvailableBalance ex_card = 10000" by (simp_all add: ex_card_def)
  obtain r u where deb: "AuthorizeAndDebit ex_q (c_PAN ex_card) 1500 ex_table = (Inr (Some r), u)" "r_Debited r"
    using ex_debit pan by fastforce
  have m: "merged_card ex_card ex_rename = Inr (ex_card\<lparr>c_Scheme := ''MC''\<rparr>)"
    "ur_AvailableBalance ex_rename = None" by (rule ex_merged)+
  obtain e v where up: "UpdateCard ex_q (ex_card\<lparr>c_Scheme := ''MC''\<rparr>) u = (Inr e, v)"
    using ex_written [OF deb(1)] by blast
  from update_undoes_debit [OF ex_table_ok ex_get m deb up] deb up show ?thesis
    unfolding pan by auto
qed

section \<open>Everything at once\<close>

text \<open>
  The statement that debits does not look at the expiry date: a purchase on an ACTIVE card whose
  balance covers the amount is approved at any time, also long after the card expired; the date
  only chooses the code of a purchase that fails for lack of funds.
\<close>

lemma expired_card_approved:
  assumes "table_ok t" "db_up env" "\<not> is_reversal req" "ParseAmount12 (AmountTrn req) = Inr a" "0 < a"
    and "row_by_pan (PAN req) t = Some c" "c_Status c = ''ACTIVE''" "a \<le> c_AvailableBalance c"
  shows "code_of (fst (Authorize postgres_cards env (Some req) t)) = RespApproved"
  using purchase_branches [OF assms(1-4)] assms(5-8) by (simp add: purchase_code_def)

text \<open>
  C11. Over the network, with everything concurrent, a call that gets an answer gets the issuer's
  own answer to the bytes of its own request: whatever frames are lost or overtake each other,
  whichever connections, listeners and workers are involved, and however calls and jobs time out.
\<close>

theorem calls_get_their_answers:
  assumes "net_run lib ops cap raw st0 evs n" "lib_fits lib" "\<forall>h. fits_frame (raw h)"
    and "sw_calls (nw_switch n) < 2 ^ 32" "Responded h r \<in> set (switch_events evs)"
  shows "\<exists>j m env st st'. Answered j (hex_encode r) m \<in> set (server_events evs) \<and> asks raw h j \<and>
    HandleHex lib (Some ops) env (hex_encode (raw h)) st = (Inr (hex_encode r, m), st')"
proof -
  note mux = switch_side [OF assms(1)]
  have ans: "answer_to (switch_events evs) h r" by (rule run_answers [OF mux assms(4,5)])
  then have "Called h \<in> set (switch_events evs)" by (auto simp: answer_to_def)
  then have "h < sw_calls (nw_switch n)" using mux_invD(4) [OF mux_run_inv [OF mux assms(4)]] by blast
  with own_answer [OF assms(1,2) _ assms(4) ans] assms(3) show ?thesis by blast
qed

theorem calls_get_their_answers_witness:
  "\<exists>j m env st st'. asks ex_raw 0 j \<and>
     HandleHex ex_lib (Some postgres_cards) env ex_req_hex st = (Inr (ex_resp_hex, m), st')"
proof -
  obtain n where n: "net_run ex_lib postgres_cards 1 ex_raw \<lparr>is_store = ex_table, is_audit = []\<rparr> ex_wire n"
    "sw_calls (nw_switch n) = 1" using ex_network by blast
  have "\<forall>h. fits_frame (ex_raw h)" "sw_calls (nw_switch n) < 2 ^ 32"
    "Responded 0 [1] \<in> set (switch_events ex_wire)"
    using n(2) by (simp_all add: ex_raw_def fits_frame_def ex_wire_def)
  from calls_get_their_answers [OF n(1) ex_lib_ok(2) this]
  show ?thesis unfolding ex_raw_def ex_hex by blast
qed

text \<open>
  C12. The issuer handles the request of a call at most once, so no call debits twice: over the
  network, with its failed and repeated writes, its broken connections and whatever they lose, the
  events in which a job with the call's correlation id was handled, answered or not, are at most
  one. The requests have to fit the length field of a frame (C25 shows what a longer one can do).
\<close>

theorem handled_at_most_once:
  assumes "net_run lib ops cap raw st0 evs n" "\<forall>h. fits_frame (raw h)"
    and "sw_calls (nw_switch n) < 2 ^ 32" "h < 2 ^ 32"
  shows "length (filter (handles_with (tpdu_header (corr_of h))) (server_events evs)) \<le> 1"
  using assms(2) by (intro handled_once [OF assms(1) _ assms(3,4)]) blast

theorem handled_at_most_once_witness:
  "length (filter (handles_with (tpdu_header (corr_of 0))) (server_events ex_wire)) = 1"
proof -
  obtain n where n: "net_run ex_lib postgres_cards 1 ex_raw \<lparr>is_store = ex_table, is_audit = []\<rparr> ex_wire n"
    "sw_calls (nw_switch n) = 1" using ex_network by blast
  have "length (filter (handles_with (tpdu_header (corr_of 0))) (server_events ex_wire)) \<le> 1"
    by (rule handled_at_most_once [OF n(1)]) (simp_all add: n(2) ex_raw_def fits_frame_def)
  moreover have "handles_with (tpdu_header (corr_of 0)) (Answered ex_job ex_resp_hex ex_response)"
    by (simp add: ex_job_def corr_of_def)
  ultimately show ?thesis by (simp add: ex_wire_def)
qed



text \<open>
  C10. Nothing is overdrawn while authorizations, reversals and all administration of cards run at
  the same time against one table: however their statements interleave, fail or lose their
  replies, the table stays well-formed and no balance becomes negative, as long as no administrator
  asks for a negative one.
\<close>

theorem database_solvent:
  assumes "db_run postgres_cards t0 evs s" "table_ok t0" "\<forall>p b. balances t0 p = Some b \<longrightarrow> 0 \<le> b"
    and "\<forall>op. Begun op \<in> set evs \<longrightarrow> nonnegative op"
  shows "table_ok (db_store s) \<and> (\<forall>p b. balances (db_store s) p = Some b \<longrightarrow> 0 \<le> b)"
  using db_run_solvent [OF assms(1) _ assms(4)] assms(2,3) by (simp add: solvent_def)

theorem database_solvent_witness:
  "\<exists>x y s. db_run postgres_cards ex_table (ex_began @ [Ended (RequestOp ex_env ex_purchase) (Authorized x),
       Ended (CreditOp ex_env ex_reversal ex_card 1500) (Authorized y)]) s \<and>
     (\<nexists>p b. balances (db_store s) p = Some b \<and> b < 0)"
proof -
  obtain x y s where r: "db_run postgres_cards ex_table (ex_began @
      [Ended (RequestOp ex_env ex_purchase) (Authorized x),
       Ended (CreditOp ex_env ex_reversal ex_card 1500) (Authorized y)]) s"
    using ex_interleaved by blast
  have "\<forall>p b. balances (db_store s) p = Some b \<longrightarrow> 0 \<le> b"
    using database_solvent [OF r ex_table_ok ex_solvent] by (auto simp: ex_began_def)
  with r show ?thesis by (meson linorder_not_less)
qed

text \<open>
  C8. Authorizations are atomic although a reversal is two statements: whatever requests run at
  the same time, with any faults, the answers given so far and the table are those of the engine
  run on one request after the other, in the order in which they ended.
\<close>

theorem authorizations_serializable:
  assumes "db_run postgres_cards t0 evs s"
    and "\<forall>op. Begun op \<in> set evs \<longrightarrow> (\<exists>env req. op = RequestOp env req)"
  shows "in_turn postgres_cards (ended_requests evs) t0 = (ended_answers evs, db_store s)"
  using assms by (intro db_run_serial) auto

theorem authorizations_serializable_witness:
  "\<exists>x y s. db_run postgres_cards ex_table (ex_began @ [Ended (RequestOp ex_env ex_purchase) (Authorized x),
       Ended (CreditOp ex_env ex_reversal ex_card 1500) (Authorized y)]) s \<and>
     in_turn postgres_cards [(ex_env, ex_purchase), (ex_env, ex_reversal)] ex_table = ([x, y], db_store s)"
proof -
  obtain x y s where r: "db_run postgres_cards ex_table (ex_began @
      [Ended (RequestOp ex_env ex_purchase) (Authorized x),
       Ended (CreditOp ex_env ex_reversal ex_card 1500) (Authorized y)]) s"
    using ex_interleaved by blast
  have "\<forall>op. Begun op \<in> set (ex_began @ [Ended (RequestOp ex_env ex_purchase) (Authorized x),
      Ended (CreditOp ex_env ex_reversal ex_card 1500) (Authorized y)]) \<longrightarrow> (\<exists>env req. op = RequestOp env req)"
    by (auto simp: ex_began_def)
  from authorizations_serializable [OF r this] r show ?thesis by (auto simp: ex_began_def)
qed

end
